theory Spec2Isabelle
  imports Main "HOL-Library.Word"
begin

unbundle bit_operations_syntax

section \<open>Drive-through road stops: the platform manager of roadstop.cpp\<close>

text \<open>
  The development embeds \<^verbatim>\<open>src/roadstop.cpp\<close>: the destructor of a road stop,
  \<^verbatim>\<open>MakeDriveThrough\<close>, \<^verbatim>\<open>ClearDriveThrough\<close>, \<^verbatim>\<open>GetByTile\<close>,
  \<^verbatim>\<open>IsDriveThroughRoadStopContinuation\<close>, \<^verbatim>\<open>Platform::Rebuild\<close> and
  \<^verbatim>\<open>CheckIntegrity\<close>. The program state is passed explicitly. Pointers are indices:
  a road stop pointer is an index of the road stop pool, a platform pointer is an index
  of an arena of platforms in which a deleted platform leaves an empty slot and a new one
  is appended, so that an address names one object for ever. A null, dangling or deleted
  pointer that the code dereferences, and a failed \<^verbatim>\<open>assert\<close>, are error values.
  A loop over tiles may run for ever (tile indices wrap around at 32 bits), so every such
  loop is a partial function into \<open>option\<close>, \<open>None\<close> standing for a run that never
  returns.
\<close>

subsection \<open>Tiles, directions and the map\<close>

type_synonym TileIndex = "32 word"

text \<open>\<^verbatim>\<open>tile_type.h\<close>: tiles are 16x16 units in size.\<close>

definition TILE_SIZE :: int where
  "TILE_SIZE = 16"

datatype Axis = AXIS_X | AXIS_Y

datatype DiagDirection = DIAGDIR_NE | DIAGDIR_SE | DIAGDIR_SW | DIAGDIR_NW

datatype Direction = DIR_N | DIR_NE | DIR_E | DIR_SE | DIR_S | DIR_SW | DIR_W | DIR_NW

datatype RoadStopType = ROADSTOP_BUS | ROADSTOP_TRUCK

datatype StationType = STATION_RAIL | STATION_AIRPORT | STATION_TRUCK | STATION_BUS
  | STATION_OILRIG | STATION_DOCK | STATION_BUOY | STATION_WAYPOINT

text \<open>
  Modelled from the spec: the direction helpers of \<^verbatim>\<open>direction_func.h\<close>, which is not
  among the sources. The spec fixes only that a run's axis has a canonical forward direction
  and its reverse, and that the step along an axis heads south; the three functions below
  are the usual ones of the game (\<^verbatim>\<open>AxisToDiagDir\<close> gives the direction of an axis that
  heads south, \<^verbatim>\<open>DiagDirToDir\<close> embeds the four diagonal directions into the eight
  directions, \<^verbatim>\<open>ReverseDir\<close> turns a direction by 180 degrees).
\<close>

fun AxisToDiagDir :: "Axis \<Rightarrow> DiagDirection" where
  "AxisToDiagDir AXIS_X = DIAGDIR_SW"
| "AxisToDiagDir AXIS_Y = DIAGDIR_SE"

fun DiagDirToDir :: "DiagDirection \<Rightarrow> Direction" where
  "DiagDirToDir DIAGDIR_NE = DIR_NE"
| "DiagDirToDir DIAGDIR_SE = DIR_SE"
| "DiagDirToDir DIAGDIR_SW = DIR_SW"
| "DiagDirToDir DIAGDIR_NW = DIR_NW"

fun ReverseDir :: "Direction \<Rightarrow> Direction" where
  "ReverseDir DIR_N = DIR_S"
| "ReverseDir DIR_NE = DIR_SW"
| "ReverseDir DIR_E = DIR_W"
| "ReverseDir DIR_SE = DIR_NW"
| "ReverseDir DIR_S = DIR_N"
| "ReverseDir DIR_SW = DIR_NE"
| "ReverseDir DIR_W = DIR_E"
| "ReverseDir DIR_NW = DIR_SE"

text \<open>
  What the map holds for one tile, as far as the road stop code reads it: one field for each
  accessor of \<^verbatim>\<open>map/road.h\<close> and \<^verbatim>\<open>map/station.h\<close> that \<^verbatim>\<open>roadstop.cpp\<close> calls
  (the headers are not among the sources, so the accessors are taken as they are, one value
  per tile, with no relation assumed between them).
\<close>

record Tile =
  tile_is_station :: bool
  tile_station_index :: nat
  tile_station_type :: StationType
  tile_drive_through :: bool
  tile_road_stop_axis :: Axis
  tile_road_stop_type :: RoadStopType
  tile_road_stop_dir :: DiagDirection

subsection \<open>Road stops, platforms and vehicles\<close>

text \<open>
  A platform: the shared record of one run. The field \<^verbatim>\<open>length\<close> is named
  \<open>plat_length\<close> here. The fields' types are declared in \<^verbatim>\<open>roadstop_base.h\<close>, which is
  not among the sources; they are integers (\<^verbatim>\<open>Rebuild\<close> computes the length in an
  \<^verbatim>\<open>int\<close>), taken without a bound.
\<close>

record Platform =
  plat_length :: int
  occupied_east :: int
  occupied_west :: int

text \<open>
  Modelled from the spec: the constructor \<^verbatim>\<open>Platform()\<close> of \<^verbatim>\<open>roadstop_base.h\<close>
  (not among the sources). A brand-new platform has zero length and zero occupancy;
  \<^verbatim>\<open>MakeDriveThrough\<close> then adds the first tile's length.
\<close>

definition Platform_new :: Platform where
  "Platform_new = \<lparr>plat_length = 0, occupied_east = 0, occupied_west = 0\<rparr>"

text \<open>
  A road stop: its tile, its status byte and its platform pointer (\<open>None\<close> is
  \<^verbatim>\<open>NULL\<close>). The \<^verbatim>\<open>next\<close> link is the order of the station's list below.
\<close>

record RoadStop =
  xy :: TileIndex
  status :: "8 word"
  platform :: "nat option"

text \<open>
  Modelled from the spec: the bit of the status byte that marks the base tile of a run
  (\<^verbatim>\<open>RSSFB_BASE_ENTRY\<close> of \<^verbatim>\<open>roadstop_base.h\<close>, not among the sources), and the
  bit helpers \<^verbatim>\<open>HasBit\<close>, \<^verbatim>\<open>SetBit\<close>, \<^verbatim>\<open>ClrBit\<close> of \<^verbatim>\<open>core/bitmath_func.hpp\<close>.
\<close>

definition RSSFB_BASE_ENTRY :: nat where
  "RSSFB_BASE_ENTRY = 6"

definition HasBit :: "8 word \<Rightarrow> nat \<Rightarrow> bool" where
  "HasBit x y = bit x y"

definition SetBit :: "8 word \<Rightarrow> nat \<Rightarrow> 8 word" where
  "SetBit x y = set_bit y x"

definition ClrBit :: "8 word \<Rightarrow> nat \<Rightarrow> 8 word" where
  "ClrBit x y = unset_bit y x"

datatype VehicleType = VEH_TRAIN | VEH_ROAD | VEH_SHIP | VEH_AIRCRAFT | VEH_EFFECT | VEH_DISASTER

text \<open>
  A vehicle, as far as \<^verbatim>\<open>Platform::Rebuild\<close> reads it: \<^verbatim>\<open>v->type\<close>,
  \<^verbatim>\<open>v->IsPrimaryVehicle()\<close>, \<^verbatim>\<open>v->vehstatus\<close>, \<^verbatim>\<open>rv->state\<close>,
  \<^verbatim>\<open>v->direction\<close> and \<^verbatim>\<open>rv->gcache.cached_total_length\<close>.
\<close>

record Vehicle =
  vtype :: VehicleType
  IsPrimaryVehicle :: bool
  vehstatus :: "8 word"
  state :: "8 word"
  direction :: Direction
  cached_total_length :: nat

text \<open>
  Modelled from the spec: the flag of a crashed vehicle (\<^verbatim>\<open>VS_CRASHED\<close> of
  \<^verbatim>\<open>vehicle_base.h\<close>) and the least state of a road vehicle that is in a road stop
  (\<^verbatim>\<open>RVSB_IN_ROAD_STOP\<close> of \<^verbatim>\<open>roadveh.h\<close>); neither header is among the sources.
\<close>

definition VS_CRASHED :: "8 word" where
  "VS_CRASHED = 0x80"

definition RVSB_IN_ROAD_STOP :: "8 word" where
  "RVSB_IN_ROAD_STOP = 0x20"

subsection \<open>The program state\<close>

text \<open>
  \<^item> \<open>tiles\<close>: the map array;
  \<^item> \<open>tile_offs\<close>: the table behind \<^verbatim>\<open>TileOffsByDiagDir\<close> (it depends on the size of
    the map; \<^verbatim>\<open>map_func.h\<close> is not among the sources, so the table is a parameter);
  \<^item> \<open>station_stops\<close>: for each station and road stop type the list of its road stops,
    the first being \<^verbatim>\<open>GetPrimaryRoadStop(type)\<close> and each next one the \<^verbatim>\<open>next\<close> of
    the one before;
  \<^item> \<open>road_stop\<close>: the pool of road stops;
  \<^item> \<open>platforms\<close>: the arena of platforms;
  \<^item> \<open>vehicles_on\<close>: the vehicles that \<^verbatim>\<open>VehicleTileIterator\<close> yields for a tile,
    in its order, and \<open>vehicle\<close>: the vehicle behind each identity.
\<close>

record world =
  tiles :: "TileIndex \<Rightarrow> Tile"
  tile_offs :: "DiagDirection \<Rightarrow> int"
  station_stops :: "nat \<Rightarrow> RoadStopType \<Rightarrow> nat list"
  road_stop :: "nat \<Rightarrow> RoadStop option"
  platforms :: "Platform option list"
  vehicles_on :: "TileIndex \<Rightarrow> nat list"
  vehicle :: "nat \<Rightarrow> Vehicle"

datatype error = AssertionFailed | InvalidPointer

type_synonym 'a result = "(error + 'a) option"

definition ok :: "'a \<Rightarrow> 'a result" where
  "ok x = Some (Inr x)"

definition fail :: "error \<Rightarrow> 'a result" where
  "fail e = Some (Inl e)"

definition bindR :: "'a result \<Rightarrow> ('a \<Rightarrow> 'b result) \<Rightarrow> 'b result" where
  "bindR m f = (case m of None \<Rightarrow> None | Some (Inl e) \<Rightarrow> Some (Inl e) | Some (Inr x) \<Rightarrow> f x)"

subsubsection \<open>Map accessors\<close>

definition IsStationTile :: "world \<Rightarrow> TileIndex \<Rightarrow> bool" where
  "IsStationTile w t = tile_is_station (tiles w t)"

definition GetStationIndex :: "world \<Rightarrow> TileIndex \<Rightarrow> nat" where
  "GetStationIndex w t = tile_station_index (tiles w t)"

definition GetStationType :: "world \<Rightarrow> TileIndex \<Rightarrow> StationType" where
  "GetStationType w t = tile_station_type (tiles w t)"

definition IsDriveThroughStopTile :: "world \<Rightarrow> TileIndex \<Rightarrow> bool" where
  "IsDriveThroughStopTile w t = tile_drive_through (tiles w t)"

definition GetRoadStopAxis :: "world \<Rightarrow> TileIndex \<Rightarrow> Axis" where
  "GetRoadStopAxis w t = tile_road_stop_axis (tiles w t)"

definition GetRoadStopType :: "world \<Rightarrow> TileIndex \<Rightarrow> RoadStopType" where
  "GetRoadStopType w t = tile_road_stop_type (tiles w t)"

definition GetRoadStopDir :: "world \<Rightarrow> TileIndex \<Rightarrow> DiagDirection" where
  "GetRoadStopDir w t = tile_road_stop_dir (tiles w t)"

text \<open>\<^verbatim>\<open>TileOffsByDiagDir\<close>: a signed difference of tile indices.\<close>

definition TileOffsByDiagDir :: "world \<Rightarrow> DiagDirection \<Rightarrow> int" where
  "TileOffsByDiagDir w d = tile_offs w d"

text \<open>
  Modelled from the spec: \<^verbatim>\<open>DoClearSquare\<close> (not among the sources) removes the tile's
  stop designation: the tile is no station tile afterwards. The other accessors are read
  by the road stop code only behind \<^verbatim>\<open>IsStationTile\<close> or on station tiles; their
  values are left as they were.
\<close>

definition DoClearSquare :: "TileIndex \<Rightarrow> world \<Rightarrow> world" where
  "DoClearSquare t w = w\<lparr>tiles := (tiles w)(t := (tiles w t)\<lparr>tile_is_station := False\<rparr>)\<rparr>"

subsubsection \<open>Pointers\<close>

definition platform_of :: "world \<Rightarrow> nat \<Rightarrow> nat option" where
  "platform_of w i = Option.bind (road_stop w i) platform"

definition rs_update :: "nat \<Rightarrow> (RoadStop \<Rightarrow> RoadStop) \<Rightarrow> world \<Rightarrow> world" where
  "rs_update i f w = w\<lparr>road_stop := (road_stop w)(i := map_option f (road_stop w i))\<rparr>"

definition plat_get :: "world \<Rightarrow> nat \<Rightarrow> Platform option" where
  "plat_get w p = (if p < length (platforms w) then platforms w ! p else None)"

text \<open>\<^verbatim>\<open>new Platform()\<close>: the address of the new platform and the state with it.\<close>

definition plat_alloc :: "world \<Rightarrow> nat \<times> world" where
  "plat_alloc w = (length (platforms w), w\<lparr>platforms := platforms w @ [Some Platform_new]\<rparr>)"

text \<open>\<^verbatim>\<open>delete p\<close>: nothing happens for \<^verbatim>\<open>NULL\<close>; the platform behind a pointer
  must be there.\<close>

definition plat_delete :: "nat option \<Rightarrow> world \<Rightarrow> error + world" where
  "plat_delete p w =
     (case p of
        None \<Rightarrow> Inr w
      | Some a \<Rightarrow>
          (case plat_get w a of
             None \<Rightarrow> Inl InvalidPointer
           | Some _ \<Rightarrow> Inr (w\<lparr>platforms := (platforms w)[a := None]\<rparr>)))"

text \<open>A read-modify-write of the platform behind the pointer \<open>p\<close> (\<open>None\<close> is \<^verbatim>\<open>NULL\<close>).\<close>

definition plat_modify :: "nat option \<Rightarrow> (Platform \<Rightarrow> Platform) \<Rightarrow> world \<Rightarrow> error + world" where
  "plat_modify p f w =
     (case p of
        None \<Rightarrow> Inl InvalidPointer
      | Some a \<Rightarrow>
          (case plat_get w a of
             None \<Rightarrow> Inl InvalidPointer
           | Some pl \<Rightarrow> Inr (w\<lparr>platforms := (platforms w)[a := Some (f pl)]\<rparr>)))"

text \<open>A read of the platform behind the pointer \<open>p\<close>.\<close>

definition plat_read :: "world \<Rightarrow> nat option \<Rightarrow> error + Platform" where
  "plat_read w p =
     (case p of
        None \<Rightarrow> Inl InvalidPointer
      | Some a \<Rightarrow> (case plat_get w a of None \<Rightarrow> Inl InvalidPointer | Some pl \<Rightarrow> Inr pl))"

text \<open>A pure step inside a computation that may fail or run for ever.\<close>

definition lift :: "error + 'a \<Rightarrow> 'a result" where
  "lift r = Some r"

subsection \<open>The operations of roadstop.cpp\<close>

subsubsection \<open>GetByTile\<close>

text \<open>
  The walk along the station's list: the stop on the tile is returned; the list's end
  before that fails the assertion \<^verbatim>\<open>rs->next != NULL\<close>, and a station without a
  primary road stop of the type makes the first read a null dereference.
\<close>

fun GetByTile_walk :: "(nat \<Rightarrow> RoadStop option) \<Rightarrow> TileIndex \<Rightarrow> nat list \<Rightarrow> error + nat" where
  "GetByTile_walk pool tile [] = Inl InvalidPointer"
| "GetByTile_walk pool tile (rs # rest) =
     (case pool rs of
        None \<Rightarrow> Inl InvalidPointer
      | Some r \<Rightarrow>
          if xy r = tile then Inr rs
          else if rest = [] then Inl AssertionFailed
          else GetByTile_walk pool tile rest)"

definition GetByTile :: "world \<Rightarrow> TileIndex \<Rightarrow> RoadStopType \<Rightarrow> error + nat" where
  "GetByTile w tile type =
     GetByTile_walk (road_stop w) tile (station_stops w (GetStationIndex w tile) type)"

subsubsection \<open>IsDriveThroughRoadStopContinuation\<close>

definition IsDriveThroughRoadStopContinuation :: "world \<Rightarrow> TileIndex \<Rightarrow> TileIndex \<Rightarrow> bool" where
  "IsDriveThroughRoadStopContinuation w rs nxt =
     (IsStationTile w nxt \<and>
      GetStationIndex w nxt = GetStationIndex w rs \<and>
      GetStationType w nxt = GetStationType w rs \<and>
      IsDriveThroughStopTile w nxt \<and>
      GetRoadStopAxis w nxt = GetRoadStopAxis w rs)"

text \<open>
  \<^verbatim>\<open>north ? RoadStop::GetByTile(north_tile, rst) : NULL\<close>: the neighbour's road stop
  when the neighbouring tile continues the stop, \<^verbatim>\<open>NULL\<close> otherwise.
\<close>

definition neighbour :: "world \<Rightarrow> TileIndex \<Rightarrow> RoadStopType \<Rightarrow> TileIndex \<Rightarrow> error + nat option" where
  "neighbour w this_xy rst t =
     (if IsDriveThroughRoadStopContinuation w this_xy t
      then (case GetByTile w t rst of Inl e \<Rightarrow> Inl e | Inr r \<Rightarrow> Inr (Some r))
      else Inr None)"

text \<open>\<^verbatim>\<open>r != NULL && r->platform != NULL\<close>, as the platform pointer it finds.\<close>

definition ptr_platform :: "world \<Rightarrow> nat option \<Rightarrow> nat option" where
  "ptr_platform w r = (case r of None \<Rightarrow> None | Some i \<Rightarrow> platform_of w i)"

text \<open>The offset of one step to the south along the axis of the stop on tile \<open>t\<close>.\<close>

definition south_offset :: "world \<Rightarrow> TileIndex \<Rightarrow> 32 word" where
  "south_offset w t = word_of_int (TileOffsByDiagDir w (AxisToDiagDir (GetRoadStopAxis w t)))"

subsubsection \<open>Platform::Rebuild\<close>

text \<open>
  The body of the loop over the vehicles of one tile: \<open>ls\<close> is the pair of the lists
  \<^verbatim>\<open>list_east\<close> and \<^verbatim>\<open>list_west\<close>.
\<close>

fun Rebuild_tile :: "world \<Rightarrow> Direction \<Rightarrow> nat list \<Rightarrow> nat list \<times> nat list \<Rightarrow> error + nat list \<times> nat list" where
  "Rebuild_tile w dir_east [] ls = Inr ls"
| "Rebuild_tile w dir_east (v # vs) ls =
     (let veh = vehicle w v in
      if vtype veh \<noteq> VEH_ROAD \<or> \<not> IsPrimaryVehicle veh \<or> (vehstatus veh AND VS_CRASHED) \<noteq> 0
      then Rebuild_tile w dir_east vs ls
      else if state veh < RVSB_IN_ROAD_STOP then Rebuild_tile w dir_east vs ls
      else if \<not> (direction veh = dir_east \<or> direction veh = ReverseDir dir_east)
      then Inl AssertionFailed
      else if direction veh = dir_east
      then Rebuild_tile w dir_east vs (if v \<in> set (fst ls) then fst ls else fst ls @ [v], snd ls)
      else Rebuild_tile w dir_east vs (fst ls, if v \<in> set (snd ls) then snd ls else snd ls @ [v]))"

partial_function (option) Rebuild_loop ::
  "world \<Rightarrow> TileIndex \<Rightarrow> 32 word \<Rightarrow> Direction \<Rightarrow> TileIndex \<Rightarrow> int \<Rightarrow> nat list \<times> nat list
   \<Rightarrow> (int \<times> nat list \<times> nat list) result" where
  "Rebuild_loop w tile offset dir_east t len ls =
     (if IsDriveThroughRoadStopContinuation w tile t then
        (case Rebuild_tile w dir_east (vehicles_on w t) ls of
           Inl e \<Rightarrow> Some (Inl e)
         | Inr ls' \<Rightarrow> Rebuild_loop w tile offset dir_east (t + offset) (len + TILE_SIZE) ls')
      else Some (Inr (len, ls)))"

definition total_length :: "world \<Rightarrow> nat list \<Rightarrow> int" where
  "total_length w vs = sum_list (map (\<lambda>v. int (cached_total_length (vehicle w v))) vs)"

text \<open>
  \<^verbatim>\<open>Platform::Rebuild (tile)\<close> overwrites all three fields of its platform, so it is
  the platform it computes; the caller stores it.
\<close>

definition Platform_Rebuild :: "world \<Rightarrow> TileIndex \<Rightarrow> Platform result" where
  "Platform_Rebuild w tile =
     (let dir = GetRoadStopDir w tile;
          offset = word_of_int (abs (TileOffsByDiagDir w dir));
          dir_east = DiagDirToDir dir
      in bindR (Rebuild_loop w tile offset dir_east tile 0 ([], []))
           (\<lambda>(len, list_east, list_west).
              ok \<lparr>plat_length = len,
                  occupied_east = total_length w list_east,
                  occupied_west = total_length w list_west\<rparr>))"

text \<open>
  Modelled from the spec: \<^verbatim>\<open>RoadStop::Rebuild()\<close> of \<^verbatim>\<open>roadstop_base.h\<close> (not among
  the sources) recomputes the platform of a road stop from scratch for the run that starts
  at the stop's tile.
\<close>

definition RoadStop_Rebuild :: "nat \<Rightarrow> world \<Rightarrow> world result" where
  "RoadStop_Rebuild this w =
     (case road_stop w this of
        None \<Rightarrow> fail InvalidPointer
      | Some rs \<Rightarrow>
          bindR (Platform_Rebuild w (xy rs))
            (\<lambda>pl. lift (plat_modify (platform rs) (\<lambda>_. pl) w)))"

subsubsection \<open>The destructor\<close>

definition RoadStop_destructor :: "nat \<Rightarrow> world \<Rightarrow> error + world" where
  "RoadStop_destructor this w =
     (case road_stop w this of
        None \<Rightarrow> Inl InvalidPointer
      | Some rs \<Rightarrow>
          if HasBit (status rs) RSSFB_BASE_ENTRY then plat_delete (platform rs) w else Inr w)"

subsubsection \<open>MakeDriveThrough\<close>

text \<open>The loop that makes all children of the southern tile take the new master.\<close>

partial_function (option) MakeDriveThrough_loop ::
  "TileIndex \<Rightarrow> RoadStopType \<Rightarrow> 32 word \<Rightarrow> nat \<Rightarrow> TileIndex \<Rightarrow> world \<Rightarrow> int \<Rightarrow> (world \<times> int) result" where
  "MakeDriveThrough_loop this_xy rst offset rs_north south_tile w added =
     (if IsDriveThroughRoadStopContinuation w this_xy south_tile then
        (case GetByTile w south_tile rst of
           Inl e \<Rightarrow> Some (Inl e)
         | Inr rs_south \<Rightarrow>
             if platform_of w rs_south = None then Some (Inr (w, added))
             else MakeDriveThrough_loop this_xy rst offset rs_north (south_tile + offset)
                    (rs_update rs_south (platform_update (\<lambda>_. platform_of w rs_north)) w)
                    (added + 1))
      else Some (Inr (w, added)))"

text \<open>The branch in which the stop joins a northern and a southern platform.\<close>

definition MakeDriveThrough_join ::
  "nat \<Rightarrow> TileIndex \<Rightarrow> RoadStopType \<Rightarrow> 32 word \<Rightarrow> nat \<Rightarrow> nat \<Rightarrow> TileIndex \<Rightarrow> world
   \<Rightarrow> (world \<times> int) result" where
  "MakeDriveThrough_join this this_xy rst offset rs_north rs_south south_tile w =
     (let w1 = rs_update rs_south (status_update (\<lambda>x. ClrBit x RSSFB_BASE_ENTRY)) w in
      bindR (lift (plat_read w1 (platform_of w1 rs_south))) (\<lambda>ps.
      bindR (lift (plat_modify (platform_of w1 this)
                     (occupied_east_update (\<lambda>x. x + occupied_east ps)) w1)) (\<lambda>w2.
      bindR (lift (plat_read w2 (platform_of w2 rs_south))) (\<lambda>ps'.
      bindR (lift (plat_modify (platform_of w2 this)
                     (occupied_west_update (\<lambda>x. x + occupied_west ps')) w2)) (\<lambda>w3.
      bindR (lift (plat_delete (platform_of w3 rs_south) w3)) (\<lambda>w4.
      MakeDriveThrough_loop this_xy rst offset rs_north south_tile w4 1))))))"

text \<open>
  The three cases of \<^verbatim>\<open>MakeDriveThrough\<close>: the state they leave and the number
  \<^verbatim>\<open>added\<close> of road stops added to the northern head.
\<close>

definition MakeDriveThrough_cases ::
  "nat \<Rightarrow> TileIndex \<Rightarrow> RoadStopType \<Rightarrow> 32 word \<Rightarrow> nat option \<Rightarrow> nat option \<Rightarrow> TileIndex \<Rightarrow> world
   \<Rightarrow> (world \<times> int) result" where
  "MakeDriveThrough_cases this this_xy rst offset rs_north rs_south south_tile w =
     (case (rs_north, ptr_platform w rs_north) of
        (Some n, Some pn) \<Rightarrow>
          (let w1 = rs_update this (platform_update (\<lambda>_. Some pn)) w in
           case (rs_south, ptr_platform w1 rs_south) of
             (Some s, Some ps) \<Rightarrow>
               MakeDriveThrough_join this this_xy rst offset n s south_tile w1
           | _ \<Rightarrow> ok (w1, 1))
      | _ \<Rightarrow>
          (case (rs_south, ptr_platform w rs_south) of
             (Some s, Some ps) \<Rightarrow>
               (let w1 = rs_update this (platform_update (\<lambda>_. Some ps)) w;
                    w2 = rs_update this (status_update (\<lambda>x. SetBit x RSSFB_BASE_ENTRY)) w1;
                    w3 = rs_update s (status_update (\<lambda>x. ClrBit x RSSFB_BASE_ENTRY)) w2
                in ok (w3, 1))
           | _ \<Rightarrow>
               (let w1 = snd (plat_alloc w);
                    w2 = rs_update this (platform_update (\<lambda>_. Some (fst (plat_alloc w)))) w1;
                    w3 = rs_update this (status_update (\<lambda>x. SetBit x RSSFB_BASE_ENTRY)) w2
                in ok (w3, 1))))"

definition MakeDriveThrough :: "nat \<Rightarrow> world \<Rightarrow> world result" where
  "MakeDriveThrough this w =
     (case road_stop w this of
        None \<Rightarrow> fail InvalidPointer
      | Some rs \<Rightarrow>
          if platform rs \<noteq> None then fail AssertionFailed
          else
            (let rst = GetRoadStopType w (xy rs);
                 offset = south_offset w (xy rs);
                 north_tile = xy rs - offset;
                 south_tile = xy rs + offset
             in
             bindR (lift (neighbour w (xy rs) rst north_tile)) (\<lambda>rs_north.
             bindR (lift (neighbour w (xy rs) rst south_tile)) (\<lambda>rs_south.
             bindR (MakeDriveThrough_cases this (xy rs) rst offset rs_north rs_south south_tile w)
               (\<lambda>(w', added).
                  lift (plat_modify (platform_of w' this)
                          (plat_length_update (\<lambda>l. l + added * TILE_SIZE)) w'))))))"

subsubsection \<open>ClearDriveThrough\<close>

text \<open>The loop that makes all more southern stops part of the new entry queue.\<close>

partial_function (option) ClearDriveThrough_south ::
  "TileIndex \<Rightarrow> RoadStopType \<Rightarrow> 32 word \<Rightarrow> nat \<Rightarrow> TileIndex \<Rightarrow> world \<Rightarrow> world result" where
  "ClearDriveThrough_south base_tile rst offset rs_south_base south_tile w =
     (if IsDriveThroughRoadStopContinuation w base_tile south_tile then
        (case GetByTile w south_tile rst of
           Inl e \<Rightarrow> Some (Inl e)
         | Inr rs_south \<Rightarrow>
             ClearDriveThrough_south base_tile rst offset rs_south_base (south_tile + offset)
               (rs_update rs_south (platform_update (\<lambda>_. platform_of w rs_south_base)) w))
      else Some (Inr w))"

text \<open>The loop that finds the other end, the northernmost tile.\<close>

partial_function (option) ClearDriveThrough_north ::
  "world \<Rightarrow> TileIndex \<Rightarrow> RoadStopType \<Rightarrow> 32 word \<Rightarrow> TileIndex \<Rightarrow> nat \<Rightarrow> nat result" where
  "ClearDriveThrough_north w base_tile rst offset north_tile rs_north =
     (if IsDriveThroughRoadStopContinuation w base_tile north_tile then
        (case GetByTile w north_tile rst of
           Inl e \<Rightarrow> Some (Inl e)
         | Inr r \<Rightarrow> ClearDriveThrough_north w base_tile rst offset (north_tile - offset) r)
      else Some (Inr rs_north))"

text \<open>The branch in which the run is split: tiles remain on both sides.\<close>

definition ClearDriveThrough_split ::
  "RoadStopType \<Rightarrow> 32 word \<Rightarrow> nat \<Rightarrow> TileIndex \<Rightarrow> nat \<Rightarrow> TileIndex \<Rightarrow> world \<Rightarrow> world result" where
  "ClearDriveThrough_split rst offset rs_north north_tile rs_south south_tile w =
     (let w1 = rs_update rs_south (status_update (\<lambda>x. SetBit x RSSFB_BASE_ENTRY)) w;
          w2 = snd (plat_alloc w1);
          w3 = rs_update rs_south (platform_update (\<lambda>_. Some (fst (plat_alloc w1)))) w2;
          rs_south_base = rs_south;
          base_tile = south_tile
      in
      bindR (ClearDriveThrough_south base_tile rst offset rs_south_base (south_tile + offset) w3) (\<lambda>w4.
      bindR (ClearDriveThrough_north w4 base_tile rst offset north_tile rs_north) (\<lambda>rs_north'.
      bindR (RoadStop_Rebuild rs_south_base w4) (\<lambda>w5.
      (case road_stop w5 rs_north' of
         None \<Rightarrow> fail InvalidPointer
       | Some rn \<Rightarrow>
           if \<not> HasBit (status rn) RSSFB_BASE_ENTRY then fail AssertionFailed
           else RoadStop_Rebuild rs_north' w5)))))"

text \<open>The four cases of \<^verbatim>\<open>ClearDriveThrough\<close>, after the square is cleared.\<close>

definition ClearDriveThrough_cases ::
  "nat \<Rightarrow> RoadStopType \<Rightarrow> 32 word \<Rightarrow> nat option \<Rightarrow> TileIndex \<Rightarrow> nat option \<Rightarrow> TileIndex \<Rightarrow> world
   \<Rightarrow> world result" where
  "ClearDriveThrough_cases this rst offset rs_north north_tile rs_south south_tile w =
     (case rs_north of
        Some n \<Rightarrow>
          (case rs_south of
             Some s \<Rightarrow> ClearDriveThrough_split rst offset n north_tile s south_tile w
           | None \<Rightarrow>
               lift (plat_modify (platform_of w n) (plat_length_update (\<lambda>l. l - TILE_SIZE)) w))
      | None \<Rightarrow>
          (case rs_south of
             Some s \<Rightarrow>
               (let w1 = rs_update s (status_update (\<lambda>x. SetBit x RSSFB_BASE_ENTRY)) w
                in lift (plat_modify (platform_of w1 s) (plat_length_update (\<lambda>l. l - TILE_SIZE)) w1))
           | None \<Rightarrow> lift (plat_delete (platform_of w this) w)))"

definition ClearDriveThrough :: "nat \<Rightarrow> world \<Rightarrow> world result" where
  "ClearDriveThrough this w =
     (case road_stop w this of
        None \<Rightarrow> fail InvalidPointer
      | Some rs \<Rightarrow>
          if platform rs = None then fail AssertionFailed
          else
            (let rst = GetRoadStopType w (xy rs);
                 offset = south_offset w (xy rs);
                 north_tile = xy rs - offset;
                 south_tile = xy rs + offset
             in
             bindR (lift (neighbour w (xy rs) rst north_tile)) (\<lambda>rs_north.
             bindR (lift (neighbour w (xy rs) rst south_tile)) (\<lambda>rs_south.
             bindR (ClearDriveThrough_cases this rst offset rs_north north_tile rs_south south_tile
                      (DoClearSquare (xy rs) w)) (\<lambda>w'.
             ok (rs_update this (platform_update (\<lambda>_. None))
                   (rs_update this (status_update (\<lambda>x. ClrBit x RSSFB_BASE_ENTRY)) w')))))))"

subsubsection \<open>CheckIntegrity\<close>

text \<open>
  The check is a \<^verbatim>\<open>const\<close> member function; the state it leaves is returned with its
  result, so that what it changes can be stated. The recomputation goes into the local
  platform \<^verbatim>\<open>temp\<close>.
\<close>

declare Rebuild_loop.simps [code]
declare MakeDriveThrough_loop.simps [code]
declare ClearDriveThrough_south.simps [code]
declare ClearDriveThrough_north.simps [code]

definition CheckIntegrity :: "nat \<Rightarrow> world \<Rightarrow> world result" where
  "CheckIntegrity this w =
     (case road_stop w this of
        None \<Rightarrow> fail InvalidPointer
      | Some rs \<Rightarrow>
          if \<not> HasBit (status rs) RSSFB_BASE_ENTRY then ok w
          else if IsDriveThroughRoadStopContinuation w (xy rs) (xy rs - south_offset w (xy rs))
          then fail AssertionFailed
          else
            bindR (Platform_Rebuild w (xy rs)) (\<lambda>temp.
            bindR (lift (plat_read w (platform rs))) (\<lambda>pl.
              if plat_length pl \<noteq> plat_length temp then fail AssertionFailed
              else if occupied_east pl \<noteq> occupied_east temp then fail AssertionFailed
              else if occupied_west pl \<noteq> occupied_west temp then fail AssertionFailed
              else ok w)))"

subsection \<open>Runs of tiles\<close>

text \<open>The \<open>n\<close> tiles from \<open>t\<close> on in steps of \<open>off\<close>; the tile after them is \<open>t + of_nat n * off\<close>.\<close>

fun tiles_from :: "TileIndex \<Rightarrow> 32 word \<Rightarrow> nat \<Rightarrow> TileIndex list" where
  "tiles_from t off 0 = []"
| "tiles_from t off (Suc n) = t # tiles_from (t + off) off n"

text \<open>
  The expressions of \<^verbatim>\<open>Platform::Rebuild\<close> for its step and for the direction it
  calls east.
\<close>

definition Rebuild_offset :: "world \<Rightarrow> TileIndex \<Rightarrow> 32 word" where
  "Rebuild_offset w tile = word_of_int (abs (TileOffsByDiagDir w (GetRoadStopDir w tile)))"

definition Rebuild_dir_east :: "world \<Rightarrow> TileIndex \<Rightarrow> Direction" where
  "Rebuild_dir_east w tile = DiagDirToDir (GetRoadStopDir w tile)"

subsection \<open>The specification's words for the occupancy of a run\<close>

text \<open>
  A vehicle is counted iff it is a primary road vehicle, not in a crashed state, and in the
  in-stop state.
\<close>

definition counted :: "world \<Rightarrow> nat \<Rightarrow> bool" where
  "counted w v =
     (vtype (vehicle w v) = VEH_ROAD \<and> IsPrimaryVehicle (vehicle w v) \<and>
      vehstatus (vehicle w v) AND VS_CRASHED = 0 \<and>
      RVSB_IN_ROAD_STOP \<le> state (vehicle w v))"

text \<open>The distinct counted vehicles on some tile of \<open>ts\<close> that travel in direction \<open>d\<close>.\<close>

definition vehicles_in :: "world \<Rightarrow> TileIndex list \<Rightarrow> Direction \<Rightarrow> nat set" where
  "vehicles_in w ts d =
     Set.filter (\<lambda>v. counted w v \<and> direction (vehicle w v) = d)
       (\<Union>t \<in> set ts. set (vehicles_on w t))"

text \<open>The sum of the cached lengths of these vehicles, each once.\<close>

definition occupancy :: "world \<Rightarrow> TileIndex list \<Rightarrow> Direction \<Rightarrow> int" where
  "occupancy w ts d = (\<Sum>v \<in> vehicles_in w ts d. int (cached_total_length (vehicle w v)))"

text \<open>
  Every counted vehicle on the tiles travels along the axis: in direction \<open>d\<close> or in its
  reverse (what \<^verbatim>\<open>Platform::Rebuild\<close> asserts of each vehicle it counts).
\<close>

definition directions_ok :: "world \<Rightarrow> TileIndex list \<Rightarrow> Direction \<Rightarrow> bool" where
  "directions_ok w ts d =
     list_all (\<lambda>t. list_all (\<lambda>v. counted w v \<longrightarrow>
        direction (vehicle w v) = d \<or> direction (vehicle w v) = ReverseDir d) (vehicles_on w t)) ts"

text \<open>One vehicle passes the assertion of \<^verbatim>\<open>Platform::Rebuild\<close>.\<close>

definition dir_ok :: "world \<Rightarrow> Direction \<Rightarrow> nat \<Rightarrow> bool" where
  "dir_ok w d v = (counted w v \<longrightarrow> direction (vehicle w v) = d \<or> direction (vehicle w v) = ReverseDir d)"

subsection \<open>A small world for examples\<close>

text \<open>
  One station with three bus stops on the tiles 10, 11 and 12 of one row, a step south
  being one tile further; a vehicle of length 8 heading north-east in the stop on tile 10 and
  one of length 8 heading south-west in the stop on tile 12. The parameters are the tiles
  that are built, the road stops and the platforms.
\<close>

definition ex_tile :: "bool \<Rightarrow> Tile" where
  "ex_tile built =
     \<lparr>tile_is_station = built, tile_station_index = 0, tile_station_type = STATION_BUS,
      tile_drive_through = True, tile_road_stop_axis = AXIS_X,
      tile_road_stop_type = ROADSTOP_BUS, tile_road_stop_dir = DIAGDIR_NE\<rparr>"

fun ex_offs :: "DiagDirection \<Rightarrow> int" where
  "ex_offs DIAGDIR_NE = - 1"
| "ex_offs DIAGDIR_SE = 256"
| "ex_offs DIAGDIR_SW = 1"
| "ex_offs DIAGDIR_NW = - 256"

definition ex_vehicle :: "nat \<Rightarrow> Vehicle" where
  "ex_vehicle v =
     \<lparr>vtype = VEH_ROAD, IsPrimaryVehicle = True, vehstatus = 0, state = 0x20,
      direction = (if v = 0 then DIR_NE else DIR_SW), cached_total_length = 8\<rparr>"

definition ex_world :: "TileIndex list \<Rightarrow> RoadStop list \<Rightarrow> Platform option list \<Rightarrow> world" where
  "ex_world built stops plats =
     \<lparr>tiles = (\<lambda>t. ex_tile (t \<in> set built)),
      tile_offs = ex_offs,
      station_stops = (\<lambda>s t. if s = 0 \<and> t = ROADSTOP_BUS then [0..<length stops] else []),
      road_stop = (\<lambda>i. if i < length stops then Some (stops ! i) else None),
      platforms = plats,
      vehicles_on = (\<lambda>t. if t = 10 then [0] else if t = 12 then [1] else []),
      vehicle = ex_vehicle\<rparr>"

definition ex_stop :: "TileIndex \<Rightarrow> 8 word \<Rightarrow> nat option \<Rightarrow> RoadStop" where
  "ex_stop t s p = \<lparr>xy = t, status = s, platform = p\<rparr>"

subsection \<open>Auxiliary notions for the proofs\<close>

text \<open>Two states have the same road stops in the pool (their fields may differ).\<close>

definition same_pool :: "world \<Rightarrow> world \<Rightarrow> bool" where
  "same_pool w w' = (\<forall>i. road_stop w' i = None \<longleftrightarrow> road_stop w i = None)"

text \<open>Example states: nothing built; the stops on the tiles 10 and 11 as one run; all three
  stops as one run; the stops on the tiles 10 and 12 as two runs with the tile between them
  built but not yet joined.\<close>

definition ex_first :: world where
  "ex_first = ex_world [10] [ex_stop 10 0 None, ex_stop 11 0 None, ex_stop 12 0 None] []"

definition ex_two :: world where
  "ex_two = ex_world [10, 11]
     [ex_stop 10 0x40 (Some 0), ex_stop 11 0 (Some 0), ex_stop 12 0 None]
     [Some \<lparr>plat_length = 32, occupied_east = 8, occupied_west = 0\<rparr>]"

definition ex_three :: world where
  "ex_three = ex_world [10, 11, 12]
     [ex_stop 10 0x40 (Some 0), ex_stop 11 0 (Some 0), ex_stop 12 0 (Some 0)]
     [Some \<lparr>plat_length = 48, occupied_east = 8, occupied_west = 8\<rparr>]"

definition ex_gap :: world where
  "ex_gap = ex_world [10, 11, 12]
     [ex_stop 10 0x40 (Some 0), ex_stop 11 0 None, ex_stop 12 0x40 (Some 1)]
     [Some \<lparr>plat_length = 16, occupied_east = 8, occupied_west = 0\<rparr>,
      Some \<lparr>plat_length = 16, occupied_east = 0, occupied_west = 8\<rparr>]"

definition ex_single :: world where
  "ex_single = ex_world [10]
     [ex_stop 10 0x40 (Some 0), ex_stop 11 0 None, ex_stop 12 0 None]
     [Some \<lparr>plat_length = 16, occupied_east = 8, occupied_west = 0\<rparr>]"

text \<open>A tile that is a drive-through stop of some station.\<close>

definition dt_tile :: "world \<Rightarrow> TileIndex \<Rightarrow> bool" where
  "dt_tile w t = (IsStationTile w t \<and> IsDriveThroughStopTile w t)"

text \<open>The road stops that \<^verbatim>\<open>GetByTile\<close> finds on the tiles \<open>ts\<close> are \<open>ids\<close>, in this order.\<close>

definition stops_at :: "world \<Rightarrow> RoadStopType \<Rightarrow> TileIndex list \<Rightarrow> nat list \<Rightarrow> bool" where
  "stops_at w rst ts ids = (map (\<lambda>t. GetByTile w t rst) ts = map Inr ids)"

text \<open>All the road stops \<open>ids\<close> are given the platform pointer \<open>p\<close>.\<close>

definition repoint :: "nat list \<Rightarrow> nat option \<Rightarrow> world \<Rightarrow> world" where
  "repoint ids p w = fold (\<lambda>i. rs_update i (platform_update (\<lambda>_. p))) ids w"

text \<open>Two states agree on all that the map, the stations' lists and the vehicles hold,
  and on which road stop is on which tile.\<close>

definition same_map :: "world \<Rightarrow> world \<Rightarrow> bool" where
  "same_map w w' =
     (tiles w' = tiles w \<and> tile_offs w' = tile_offs w \<and> station_stops w' = station_stops w \<and>
      vehicles_on w' = vehicles_on w \<and> vehicle w' = vehicle w \<and>
      (\<forall>i. map_option xy (road_stop w' i) = map_option xy (road_stop w i)))"

subsection \<open>Runs and the invariant of the platform manager\<close>

text \<open>
  What \<^verbatim>\<open>IsDriveThroughRoadStopContinuation\<close> compares: the station, the station type and
  the axis of a tile.
\<close>

definition kind :: "world \<Rightarrow> TileIndex \<Rightarrow> nat \<times> StationType \<times> Axis" where
  "kind w t = (GetStationIndex w t, GetStationType w t, GetRoadStopAxis w t)"

text \<open>The road stop \<open>i\<close> has the base bit \<^verbatim>\<open>RSSFB_BASE_ENTRY\<close>.\<close>

definition has_base :: "world \<Rightarrow> nat \<Rightarrow> bool" where
  "has_base w i =
     (case road_stop w i of None \<Rightarrow> False | Some r \<Rightarrow> HasBit (status r) RSSFB_BASE_ENTRY)"







text \<open>
  A stretch of \<open>n\<close> tiles from \<open>b\<close> on in steps of \<open>off\<close>: drive-through stop tiles of
  the kind \<open>k\<close> and the road stop type \<open>rst\<close>, with the stops \<open>ids\<close> on them, all on the
  platform \<open>p\<close>.
\<close>

definition seg ::
  "world \<Rightarrow> TileIndex \<Rightarrow> 32 word \<Rightarrow> nat \<Rightarrow> RoadStopType \<Rightarrow> nat \<times> StationType \<times> Axis \<Rightarrow>
   nat list \<Rightarrow> nat \<Rightarrow> bool" where
  "seg w b off n rst k ids p =
     (list_all (\<lambda>t. dt_tile w t \<and> kind w t = k \<and> GetRoadStopType w t = rst \<and> Rebuild_offset w t = off)
        (tiles_from b off n) \<and>
      stops_at w rst (tiles_from b off n) ids \<and>
      list_all (\<lambda>i. platform_of w i = Some p) ids)"

text \<open>
  What an operation on the tile \<open>x\<close> leaves alone: the map but for the tile \<open>x\<close>, the
  stations' lists, the tiles of the road stops, the road stops outside \<open>M\<close> and the
  platforms outside \<open>P\<close>.
\<close>

definition frame :: "world \<Rightarrow> world \<Rightarrow> TileIndex \<Rightarrow> nat set \<Rightarrow> nat set \<Rightarrow> bool" where
  "frame w w' x M P =
     (tile_offs w' = tile_offs w \<and> station_stops w' = station_stops w \<and>
      (\<forall>t. t \<noteq> x \<longrightarrow> tiles w' t = tiles w t) \<and>
      (\<forall>i. map_option xy (road_stop w' i) = map_option xy (road_stop w i)) \<and>
      (\<forall>i. i \<notin> M \<longrightarrow> road_stop w' i = road_stop w i) \<and>
      (\<forall>q. q \<notin> P \<longrightarrow> plat_get w' q = plat_get w q))"

subsection \<open>Sequences of operations\<close>

text \<open>
  The caller of \<^verbatim>\<open>MakeDriveThrough\<close> has built the stop on the map before the call: the
  tile of the stop holds the data \<open>td\<close> of a drive-through stop.
\<close>

definition build_tile :: "TileIndex \<Rightarrow> Tile \<Rightarrow> world \<Rightarrow> world" where
  "build_tile t td w = w\<lparr>tiles := (tiles w)(t := td)\<rparr>"







section \<open>Properties\<close>

subsection \<open>Basic facts about the state and its operations\<close>

lemma bindR_simps [simp]:
  "bindR None f = None"
  "bindR (Some (Inl e)) f = Some (Inl e)"
  "bindR (Some (Inr x)) f = f x"
  by (simp_all add: bindR_def)

lemma bindR_ok [simp]: "bindR (ok x) f = f x" "bindR (fail e) f = fail e"
  "bindR (lift (Inr x)) f = f x" "bindR (lift (Inl e)) f = fail e"
  by (simp_all add: ok_def fail_def lift_def)

lemma bindR_eq_ok:
  "bindR m f = Some (Inr y) \<longleftrightarrow> (\<exists>x. m = Some (Inr x) \<and> f x = Some (Inr y))"
  by (auto simp: bindR_def split: option.splits sum.splits)

lemma result_simps [simp]:
  "ok x = Some (Inr y) \<longleftrightarrow> x = y"
  "fail e \<noteq> Some (Inr y)"
  "lift r = Some (Inr y) \<longleftrightarrow> r = Inr y"
  by (simp_all add: ok_def fail_def lift_def)

lemma rs_update_fields [simp]:
  "tiles (rs_update i f w) = tiles w"
  "tile_offs (rs_update i f w) = tile_offs w"
  "station_stops (rs_update i f w) = station_stops w"
  "platforms (rs_update i f w) = platforms w"
  "vehicles_on (rs_update i f w) = vehicles_on w"
  "vehicle (rs_update i f w) = vehicle w"
  "road_stop (rs_update i f w) j = (if j = i then map_option f (road_stop w i) else road_stop w j)"
  by (simp_all add: rs_update_def)

lemma DoClearSquare_fields [simp]:
  "tile_offs (DoClearSquare t w) = tile_offs w"
  "station_stops (DoClearSquare t w) = station_stops w"
  "platforms (DoClearSquare t w) = platforms w"
  "vehicles_on (DoClearSquare t w) = vehicles_on w"
  "vehicle (DoClearSquare t w) = vehicle w"
  "road_stop (DoClearSquare t w) = road_stop w"
  by (simp_all add: DoClearSquare_def)

lemma HasBit_SetBit [simp]: "HasBit (SetBit x RSSFB_BASE_ENTRY) RSSFB_BASE_ENTRY"
  by (simp add: HasBit_def SetBit_def RSSFB_BASE_ENTRY_def bit_set_bit_iff)

lemma HasBit_ClrBit [simp]: "\<not> HasBit (ClrBit x RSSFB_BASE_ENTRY) RSSFB_BASE_ENTRY"
  by (simp add: HasBit_def ClrBit_def bit_unset_bit_iff)

lemma platform_of_simps [simp]:
  "platform_of (DoClearSquare t w) i = platform_of w i"
  "platform_of (rs_update j (status_update f) w) i = platform_of w i"
  by (simp_all add: platform_of_def split: Option.bind_split)

lemma rs_update_twice: "rs_update i f (rs_update i g w) = rs_update i (f \<circ> g) w"
  by (simp add: rs_update_def option.map_comp)

lemma rs_update_Some: "road_stop w i = Some r \<Longrightarrow> rs_update i f w = w\<lparr>road_stop := (road_stop w)(i \<mapsto> f r)\<rparr>"
  by (simp add: rs_update_def)

lemma world_eqI:
  "tiles a = tiles b \<Longrightarrow> tile_offs a = tile_offs b \<Longrightarrow> station_stops a = station_stops b \<Longrightarrow>
   road_stop a = road_stop b \<Longrightarrow> platforms a = platforms b \<Longrightarrow> vehicles_on a = vehicles_on b \<Longrightarrow>
   vehicle a = vehicle b \<Longrightarrow> world.more a = world.more b \<Longrightarrow> a = b"
  by (rule world.equality)

lemma plat_get_simps [simp]:
  "plat_get (rs_update i f w) = plat_get w"
  "plat_get (DoClearSquare t w) = plat_get w"
  by (simp_all add: plat_get_def fun_eq_iff)

lemma plat_modify_Some:
  "plat_get w a = Some pl \<Longrightarrow>
   plat_modify (Some a) f w = Inr (w\<lparr>platforms := (platforms w)[a := Some (f pl)]\<rparr>)"
  by (simp add: plat_modify_def)

lemma plat_read_Some: "plat_get w a = Some pl \<Longrightarrow> plat_read w (Some a) = Inr pl"
  by (simp add: plat_read_def)

lemma plat_delete_Some:
  "plat_get w a = Some pl \<Longrightarrow> plat_delete (Some a) w = Inr (w\<lparr>platforms := (platforms w)[a := None]\<rparr>)"
  by (simp add: plat_delete_def)

lemma plat_length_update_eq: "plat_length_update f pl = pl\<lparr>plat_length := f (plat_length pl)\<rparr>"
  by (cases pl) simp

lemma neighbour_north_south_differ:
  assumes "neighbour w t rst (t - off) \<noteq> neighbour w t rst (t + off)"
  shows "t - off \<noteq> t" and "t + off \<noteq> t"
  using assms by (auto simp: )

lemma GetByTile_walk_Inr:
  "GetByTile_walk pool tile ids = Inr i \<Longrightarrow> \<exists>r. pool i = Some r \<and> xy r = tile"
  by (induction ids) (auto split: option.splits if_splits)

lemma GetByTile_Inr:
  "GetByTile w tile rst = Inr i \<Longrightarrow> \<exists>r. road_stop w i = Some r \<and> xy r = tile"
  unfolding GetByTile_def by (rule GetByTile_walk_Inr)

lemma neighbour_Some:
  "neighbour w t rst t' = Inr (Some i) \<Longrightarrow> \<exists>r. road_stop w i = Some r \<and> xy r = t'"
  by (auto simp: neighbour_def split: if_splits sum.splits dest: GetByTile_Inr)

lemma plat_modify_road_stop:
  "plat_modify p f w = Inr w' \<Longrightarrow> road_stop w' = road_stop w"
  by (auto simp: plat_modify_def split: option.splits)

lemma plat_delete_road_stop:
  "plat_delete p w = Inr w' \<Longrightarrow> road_stop w' = road_stop w"
  by (auto simp: plat_delete_def split: option.splits)

lemma plat_alloc_road_stop [simp]:
  "road_stop (snd (plat_alloc w)) = road_stop w"
  by (simp add: plat_alloc_def)

lemma same_pool_refl [simp]: "same_pool w w"
  by (simp add: same_pool_def)

lemma same_pool_trans: "same_pool w w' \<Longrightarrow> same_pool w' w'' \<Longrightarrow> same_pool w w''"
  by (simp add: same_pool_def)

lemma same_pool_rs_update [simp]: "same_pool w (rs_update i f w)"
  by (simp add: same_pool_def)

lemma same_pool_eq: "road_stop w' = road_stop w \<Longrightarrow> same_pool w w'"
  by (simp add: same_pool_def)

lemma ClearDriveThrough_south_pool_aux:
  assumes "ClearDriveThrough_south base_tile rst offset b t w = Some r"
  shows "\<forall>w'. r = Inr w' \<longrightarrow> same_pool w w'"
  using assms
proof (induction rule: ClearDriveThrough_south.raw_induct[rotated, consumes 1])
  case (1 south base_tile rst offset b t w r)
  show ?case
  proof (cases "IsDriveThroughRoadStopContinuation w base_tile t")
    case False
    with 1 show ?thesis by auto
  next
    case True
    show ?thesis
    proof (intro allI impI)
      fix w' assume r: "r = Inr w'"
      with True 1(2) obtain i where g: "GetByTile w t rst = Inr i"
        and s: "south base_tile rst offset b (t + offset)
                (rs_update i (platform_update (\<lambda>_. platform_of w b)) w) = Some (Inr w')"
        by (auto split: sum.splits)
      from 1(1)[OF s]
      have "same_pool (rs_update i (platform_update (\<lambda>_. platform_of w b)) w) w'" by simp
      then show "same_pool w w'"
        using same_pool_trans same_pool_rs_update by blast
    qed
  qed
qed

lemma ClearDriveThrough_south_pool:
  "ClearDriveThrough_south base_tile rst offset b t w = Some (Inr w') \<Longrightarrow> same_pool w w'"
  using ClearDriveThrough_south_pool_aux by blast

lemma RoadStop_Rebuild_road_stop:
  "RoadStop_Rebuild i w = Some (Inr w') \<Longrightarrow> road_stop w' = road_stop w"
  by (auto simp: RoadStop_Rebuild_def bindR_eq_ok dest: plat_modify_road_stop split: option.splits)

lemma ClearDriveThrough_split_pool:
  assumes "ClearDriveThrough_split rst offset n nt s st w = Some (Inr w')"
  shows "same_pool w w'"
proof -
  define w3 where "w3 = rs_update s (platform_update (\<lambda>_. Some (fst (plat_alloc (rs_update s (status_update (\<lambda>x. SetBit x RSSFB_BASE_ENTRY)) w)))))
     (snd (plat_alloc (rs_update s (status_update (\<lambda>x. SetBit x RSSFB_BASE_ENTRY)) w)))"
  have p3: "same_pool w w3"
    by (simp add: w3_def same_pool_def)
  from assms obtain w4 n' w5 where
    a: "ClearDriveThrough_south st rst offset s (st + offset) w3 = Some (Inr w4)"
    and c: "RoadStop_Rebuild s w4 = Some (Inr w5)"
    and d: "(case road_stop w5 n' of None \<Rightarrow> fail InvalidPointer
             | Some rn \<Rightarrow> if \<not> HasBit (status rn) RSSFB_BASE_ENTRY then fail AssertionFailed
                          else RoadStop_Rebuild n' w5) = Some (Inr w')"
    unfolding ClearDriveThrough_split_def Let_def w3_def bindR_eq_ok by blast
  from d have "RoadStop_Rebuild n' w5 = Some (Inr w')"
    by (auto split: option.splits if_splits)
  then have "road_stop w' = road_stop w5"
    by (rule RoadStop_Rebuild_road_stop)
  moreover have "road_stop w5 = road_stop w4"
    using c by (rule RoadStop_Rebuild_road_stop)
  moreover have "same_pool w3 w4"
    using a by (rule ClearDriveThrough_south_pool)
  ultimately show ?thesis
    using p3 by (simp add: same_pool_def)
qed

lemma ClearDriveThrough_cases_pool:
  assumes "ClearDriveThrough_cases this rst offset rn nt rsth st w = Some (Inr w')"
  shows "same_pool w w'"
proof (cases rn)
  case None
  note n = this
  show ?thesis
  proof (cases rsth)
    case None
    with n assms show ?thesis
      by (auto simp: ClearDriveThrough_cases_def dest: plat_delete_road_stop same_pool_eq)
  next
    case (Some s)
    with n assms have "road_stop w' = road_stop (rs_update s (status_update (\<lambda>x. SetBit x RSSFB_BASE_ENTRY)) w)"
      by (auto simp: ClearDriveThrough_cases_def Let_def dest!: plat_modify_road_stop)
    then show ?thesis
      by (simp add: same_pool_def)
  qed
next
  case (Some n)
  note n = this
  show ?thesis
  proof (cases rsth)
    case None
    with n assms show ?thesis
      by (auto simp: ClearDriveThrough_cases_def dest: plat_modify_road_stop same_pool_eq)
  next
    case (Some s)
    with n assms show ?thesis
      by (auto simp: ClearDriveThrough_cases_def dest: ClearDriveThrough_split_pool)
  qed
qed

lemma ClearDriveThrough_okD:
  assumes "ClearDriveThrough this w = Some (Inr w')"
  shows "\<exists>rs rn rsth w2. road_stop w this = Some rs \<and> platform rs \<noteq> None \<and>
     neighbour w (xy rs) (GetRoadStopType w (xy rs)) (xy rs - south_offset w (xy rs)) = Inr rn \<and>
     neighbour w (xy rs) (GetRoadStopType w (xy rs)) (xy rs + south_offset w (xy rs)) = Inr rsth \<and>
     ClearDriveThrough_cases this (GetRoadStopType w (xy rs)) (south_offset w (xy rs))
        rn (xy rs - south_offset w (xy rs)) rsth (xy rs + south_offset w (xy rs))
        (DoClearSquare (xy rs) w) = Some (Inr w2) \<and>
     w' = rs_update this (platform_update (\<lambda>_. None))
                 (rs_update this (status_update (\<lambda>x. ClrBit x RSSFB_BASE_ENTRY)) w2)"
proof (cases "road_stop w this")
  case None
  with assms show ?thesis by (simp add: ClearDriveThrough_def)
next
  case (Some rs)
  show ?thesis
  proof (cases "platform rs = None")
    case True
    with Some assms show ?thesis by (simp add: ClearDriveThrough_def)
  next
    case False
    with Some assms show ?thesis
      unfolding ClearDriveThrough_def Let_def
      by (simp add: bindR_eq_ok) blast
  qed
qed


subsection \<open>Platform::Rebuild\<close>

lemma ReverseDir_neq [simp]: "ReverseDir d \<noteq> d" "d \<noteq> ReverseDir d"
  by (cases d; simp)+

lemma directions_ok_alt: "directions_ok w ts d = list_all (\<lambda>t. list_all (dir_ok w d) (vehicles_on w t)) ts"
  unfolding directions_ok_def dir_ok_def[abs_def] ..

lemma Rebuild_tile_skip:
  "\<not> counted w v \<Longrightarrow> Rebuild_tile w d (v # vs) ls = Rebuild_tile w d vs ls"
  by (auto simp: counted_def Let_def)

lemma Rebuild_tile_east:
  "counted w v \<Longrightarrow> direction (vehicle w v) = d \<Longrightarrow>
   Rebuild_tile w d (v # vs) ls =
     Rebuild_tile w d vs (if v \<in> set (fst ls) then fst ls else fst ls @ [v], snd ls)"
  by (auto simp: counted_def Let_def)

lemma Rebuild_tile_west:
  "counted w v \<Longrightarrow> direction (vehicle w v) = ReverseDir d \<Longrightarrow>
   Rebuild_tile w d (v # vs) ls =
     Rebuild_tile w d vs (fst ls, if v \<in> set (snd ls) then snd ls else snd ls @ [v])"
  by (auto simp: counted_def Let_def)

lemma Rebuild_tile_assert:
  "\<not> dir_ok w d v \<Longrightarrow> Rebuild_tile w d (v # vs) ls = Inl AssertionFailed"
  by (auto simp: counted_def Let_def dir_ok_def)

declare Rebuild_tile.simps(2) [simp del]

lemma Rebuild_tile_ok:
  assumes "list_all (dir_ok w d) vs" and "distinct (fst ls)" and "distinct (snd ls)"
  shows "\<exists>le lw. Rebuild_tile w d vs ls = Inr (le, lw) \<and> distinct le \<and> distinct lw \<and>
     set le = set (fst ls) \<union> {v \<in> set vs. counted w v \<and> direction (vehicle w v) = d} \<and>
     set lw = set (snd ls) \<union> {v \<in> set vs. counted w v \<and> direction (vehicle w v) = ReverseDir d}"
  using assms
proof (induction vs arbitrary: ls)
  case Nil
  then show ?case by (cases ls) simp
next
  case (Cons v vs)
  have rest: "list_all (dir_ok w d) vs" using Cons.prems by simp
  show ?case
  proof (cases "counted w v")
    case False
    from Cons.IH[OF rest Cons.prems(2,3)] False show ?thesis
      by (auto simp: Rebuild_tile_skip)
  next
    case True
    with Cons.prems(1) have dv: "direction (vehicle w v) = d \<or> direction (vehicle w v) = ReverseDir d"
      by (simp add: dir_ok_def)
    show ?thesis
    proof (cases "direction (vehicle w v) = d")
      case east: True
      let ?ls = "(if v \<in> set (fst ls) then fst ls else fst ls @ [v], snd ls)"
      have "distinct (fst ?ls)" "distinct (snd ?ls)"
        using Cons.prems by auto
      from Cons.IH[OF rest this] show ?thesis
        using True east by (auto simp: Rebuild_tile_east)
    next
      case west: False
      with dv have r: "direction (vehicle w v) = ReverseDir d" by simp
      let ?ls = "(fst ls, if v \<in> set (snd ls) then snd ls else snd ls @ [v])"
      have "distinct (fst ?ls)" "distinct (snd ?ls)"
        using Cons.prems by auto
      from Cons.IH[OF rest this] show ?thesis
        using True r west by (auto simp: Rebuild_tile_west)
    qed
  qed
qed

lemma Rebuild_tile_fails:
  assumes "\<not> list_all (dir_ok w d) vs"
  shows "Rebuild_tile w d vs ls = Inl AssertionFailed"
  using assms
proof (induction vs arbitrary: ls)
  case Nil
  then show ?case by simp
next
  case (Cons v vs)
  show ?case
  proof (cases "dir_ok w d v")
    case False
    then show ?thesis by (rule Rebuild_tile_assert)
  next
    case True
    with Cons.prems have n: "\<not> list_all (dir_ok w d) vs" by simp
    show ?thesis
    proof (cases "counted w v")
      case False
      then show ?thesis using Cons.IH[OF n] by (simp add: Rebuild_tile_skip)
    next
      case c: True
      with True have "direction (vehicle w v) = d \<or> direction (vehicle w v) = ReverseDir d"
        by (simp add: dir_ok_def)
      then show ?thesis
        using c Cons.IH[OF n] by (auto simp: Rebuild_tile_east Rebuild_tile_west)
    qed
  qed
qed

lemma vehicles_in_Cons:
  "vehicles_in w (t # ts) d =
     {v \<in> set (vehicles_on w t). counted w v \<and> direction (vehicle w v) = d} \<union> vehicles_in w ts d"
  by (auto simp: vehicles_in_def)

lemma vehicles_in_Nil [simp]: "vehicles_in w [] d = {}"
  by (simp add: vehicles_in_def)

lemma tiles_from_end: "t + off + of_nat n * off = t + of_nat (Suc n) * off"
  by (simp add: algebra_simps)

lemma Rebuild_loop_ok:
  assumes "list_all (IsDriveThroughRoadStopContinuation w tile) (tiles_from t off n)"
    and "\<not> IsDriveThroughRoadStopContinuation w tile (t + of_nat n * off)"
    and "directions_ok w (tiles_from t off n) d"
    and "distinct (fst ls)" and "distinct (snd ls)"
  shows "\<exists>le lw. Rebuild_loop w tile off d t len ls = Some (Inr (len + TILE_SIZE * int n, le, lw)) \<and>
     distinct le \<and> distinct lw \<and>
     set le = set (fst ls) \<union> vehicles_in w (tiles_from t off n) d \<and>
     set lw = set (snd ls) \<union> vehicles_in w (tiles_from t off n) (ReverseDir d)"
  using assms
proof (induction n arbitrary: t len ls)
  case 0
  then show ?case
    by (subst Rebuild_loop.simps) (cases ls, simp)
next
  case (Suc n)
  from Suc.prems have c: "IsDriveThroughRoadStopContinuation w tile t"
    and ok: "list_all (dir_ok w d) (vehicles_on w t)"
    by (simp_all add: directions_ok_alt)
  from Rebuild_tile_ok[OF ok Suc.prems(4,5)] obtain le lw where
    rt: "Rebuild_tile w d (vehicles_on w t) ls = Inr (le, lw)" and dl: "distinct le" "distinct lw"
    and sl: "set le = set (fst ls) \<union> {v \<in> set (vehicles_on w t). counted w v \<and> direction (vehicle w v) = d}"
      "set lw = set (snd ls) \<union> {v \<in> set (vehicles_on w t). counted w v \<and> direction (vehicle w v) = ReverseDir d}"
    by blast
  have "\<exists>le' lw'. Rebuild_loop w tile off d (t + off) (len + TILE_SIZE) (le, lw) =
       Some (Inr (len + TILE_SIZE + TILE_SIZE * int n, le', lw')) \<and>
     distinct le' \<and> distinct lw' \<and>
     set le' = set (fst (le, lw)) \<union> vehicles_in w (tiles_from (t + off) off n) d \<and>
     set lw' = set (snd (le, lw)) \<union> vehicles_in w (tiles_from (t + off) off n) (ReverseDir d)"
    using Suc.prems dl
    by (intro Suc.IH) (simp_all add: tiles_from_end directions_ok_alt)
  then obtain le' lw' where
    r: "Rebuild_loop w tile off d (t + off) (len + TILE_SIZE) (le, lw) =
       Some (Inr (len + TILE_SIZE + TILE_SIZE * int n, le', lw'))"
    and d': "distinct le'" "distinct lw'"
    and s': "set le' = set le \<union> vehicles_in w (tiles_from (t + off) off n) d"
      "set lw' = set lw \<union> vehicles_in w (tiles_from (t + off) off n) (ReverseDir d)"
    by auto
  have "len + TILE_SIZE + TILE_SIZE * int n = len + TILE_SIZE * int (Suc n)"
    by (simp add: algebra_simps)
  with r have "Rebuild_loop w tile off d t len ls = Some (Inr (len + TILE_SIZE * int (Suc n), le', lw'))"
    by (subst Rebuild_loop.simps) (simp only: c rt if_True sum.case)
  moreover have "set le' = set (fst ls) \<union> vehicles_in w (tiles_from t off (Suc n)) d"
    "set lw' = set (snd ls) \<union> vehicles_in w (tiles_from t off (Suc n)) (ReverseDir d)"
    using s' sl by (auto simp: vehicles_in_Cons)
  ultimately show ?case
    using d' by blast
qed

lemma Rebuild_loop_fails:
  assumes "list_all (IsDriveThroughRoadStopContinuation w tile) (tiles_from t off n)"
    and "\<not> directions_ok w (tiles_from t off n) d"
    and "distinct (fst ls)" and "distinct (snd ls)"
  shows "Rebuild_loop w tile off d t len ls = Some (Inl AssertionFailed)"
  using assms
proof (induction n arbitrary: t len ls)
  case 0
  then show ?case by (simp add: directions_ok_def)
next
  case (Suc n)
  from Suc.prems have c: "IsDriveThroughRoadStopContinuation w tile t" by simp
  show ?case
  proof (cases "list_all (dir_ok w d) (vehicles_on w t)")
    case False
    from Rebuild_tile_fails[OF this] show ?thesis
      by (subst Rebuild_loop.simps) (simp add: c)
  next
    case True
    with Suc.prems have n: "\<not> directions_ok w (tiles_from (t + off) off n) d"
      by (simp add: directions_ok_alt)
    from Rebuild_tile_ok[OF True Suc.prems(3,4)] obtain le lw where
      rt: "Rebuild_tile w d (vehicles_on w t) ls = Inr (le, lw)" and dl: "distinct le" "distinct lw"
      by blast
    have "Rebuild_loop w tile off d (t + off) (len + TILE_SIZE) (le, lw) = Some (Inl AssertionFailed)"
      using Suc.prems(1) n dl by (intro Suc.IH) simp_all
    then show ?thesis
      by (subst Rebuild_loop.simps) (simp add: c rt)
  qed
qed

lemma total_length_distinct:
  "distinct vs \<Longrightarrow> total_length w vs = (\<Sum>v \<in> set vs. int (cached_total_length (vehicle w v)))"
  by (simp add: total_length_def sum_list_distinct_conv_sum_set)

lemma Platform_Rebuild_run:
  assumes "list_all (IsDriveThroughRoadStopContinuation w tile) (tiles_from tile (Rebuild_offset w tile) n)"
    and "\<not> IsDriveThroughRoadStopContinuation w tile (tile + of_nat n * Rebuild_offset w tile)"
  shows "Platform_Rebuild w tile =
     (if directions_ok w (tiles_from tile (Rebuild_offset w tile) n) (Rebuild_dir_east w tile)
      then Some (Inr \<lparr>plat_length = TILE_SIZE * int n,
             occupied_east = occupancy w (tiles_from tile (Rebuild_offset w tile) n) (Rebuild_dir_east w tile),
             occupied_west = occupancy w (tiles_from tile (Rebuild_offset w tile) n)
                               (ReverseDir (Rebuild_dir_east w tile))\<rparr>)
      else Some (Inl AssertionFailed))"
proof (cases "directions_ok w (tiles_from tile (Rebuild_offset w tile) n) (Rebuild_dir_east w tile)")
  case True
  from Rebuild_loop_ok[OF assms True, of "([], [])" 0] obtain le lw where
    r: "Rebuild_loop w tile (Rebuild_offset w tile) (Rebuild_dir_east w tile) tile 0 ([], []) =
       Some (Inr (TILE_SIZE * int n, le, lw))"
    and d: "distinct le" "distinct lw"
    and s: "set le = vehicles_in w (tiles_from tile (Rebuild_offset w tile) n) (Rebuild_dir_east w tile)"
      "set lw = vehicles_in w (tiles_from tile (Rebuild_offset w tile) n) (ReverseDir (Rebuild_dir_east w tile))"
    by auto
  show ?thesis
    using True r d s
    by (simp add: Platform_Rebuild_def Let_def Rebuild_offset_def Rebuild_dir_east_def
        total_length_distinct occupancy_def)
next
  case False
  from Rebuild_loop_fails[OF assms(1) False, of "([], [])" 0] show ?thesis
    using False
    by (simp add: Platform_Rebuild_def Let_def Rebuild_offset_def Rebuild_dir_east_def)
qed



subsection \<open>States that agree on the map\<close>

lemma same_map_refl [simp]: "same_map w w"
  by (simp add: same_map_def)

lemma same_map_trans: "same_map a b \<Longrightarrow> same_map b c \<Longrightarrow> same_map a c"
  by (simp add: same_map_def)

lemma same_map_rs_update_platform [simp]:
  "same_map w (rs_update i (platform_update f) w)"
  "same_map w (rs_update i (status_update g) w)"
  by (auto simp: same_map_def option.map_comp comp_def)

lemma same_map_platforms [simp]: "same_map w (w\<lparr>platforms := ps\<rparr>)"
  by (simp add: same_map_def)

lemma same_map_plat_modify: "plat_modify p f w = Inr w' \<Longrightarrow> same_map w w'"
  by (auto simp: plat_modify_def split: option.splits)

lemma same_map_plat_delete: "plat_delete p w = Inr w' \<Longrightarrow> same_map w w'"
  by (auto simp: plat_delete_def split: option.splits)

lemma same_map_plat_alloc [simp]: "same_map w (snd (plat_alloc w))"
  by (simp add: plat_alloc_def)

lemma same_map_IsCont:
  "same_map w w' \<Longrightarrow> IsDriveThroughRoadStopContinuation w' = IsDriveThroughRoadStopContinuation w"
  by (simp add: same_map_def IsDriveThroughRoadStopContinuation_def fun_eq_iff IsStationTile_def
      GetStationIndex_def GetStationType_def IsDriveThroughStopTile_def GetRoadStopAxis_def)

lemma same_map_accessors:
  assumes "same_map w w'"
  shows "GetRoadStopType w' = GetRoadStopType w" "south_offset w' = south_offset w"
    "Rebuild_offset w' = Rebuild_offset w" "Rebuild_dir_east w' = Rebuild_dir_east w"
    "dt_tile w' = dt_tile w" "GetStationIndex w' = GetStationIndex w"
    "counted w' = counted w" "vehicles_in w' = vehicles_in w" "occupancy w' = occupancy w"
    "directions_ok w' = directions_ok w" "dir_ok w' = dir_ok w"
  using assms
  by (simp_all add: same_map_def fun_eq_iff GetRoadStopType_def south_offset_def Rebuild_offset_def
      Rebuild_dir_east_def dt_tile_def GetStationIndex_def counted_def vehicles_in_def occupancy_def
      directions_ok_def dir_ok_def TileOffsByDiagDir_def GetRoadStopAxis_def GetRoadStopDir_def
      IsStationTile_def IsDriveThroughStopTile_def)

lemma GetByTile_walk_same:
  assumes "\<forall>i. map_option xy (pool' i) = map_option xy (pool i)"
  shows "GetByTile_walk pool' t ids = GetByTile_walk pool t ids"
proof (induction ids)
  case Nil
  show ?case by simp
next
  case (Cons i ids)
  from assms have "map_option xy (pool' i) = map_option xy (pool i)" by simp
  then show ?case
    using Cons by (cases "pool i"; cases "pool' i") auto
qed

lemma same_map_GetByTile:
  assumes "same_map w w'"
  shows "GetByTile w' = GetByTile w"
proof (intro ext)
  fix t rst
  have "GetByTile_walk (road_stop w') t (station_stops w (GetStationIndex w t) rst) =
        GetByTile_walk (road_stop w) t (station_stops w (GetStationIndex w t) rst)"
    using assms by (intro GetByTile_walk_same) (simp add: same_map_def)
  moreover have "station_stops w' = station_stops w" "GetStationIndex w' t = GetStationIndex w t"
    using assms by (simp_all add: same_map_def GetStationIndex_def)
  ultimately show "GetByTile w' t rst = GetByTile w t rst"
    by (simp add: GetByTile_def)
qed

lemma same_map_stops_at: "same_map w w' \<Longrightarrow> stops_at w' = stops_at w"
  by (simp add: stops_at_def fun_eq_iff same_map_GetByTile)

lemma same_map_neighbour: "same_map w w' \<Longrightarrow> neighbour w' = neighbour w"
  by (simp add: neighbour_def fun_eq_iff same_map_GetByTile same_map_IsCont)

subsection \<open>Re-pointing road stops\<close>

lemma repoint_Nil [simp]: "repoint [] p w = w"
  by (simp add: repoint_def)

lemma repoint_Cons: "repoint (i # ids) p w = repoint ids p (rs_update i (platform_update (\<lambda>_. p)) w)"
  by (simp add: repoint_def)

lemma repoint_fields [simp]:
  "tiles (repoint ids p w) = tiles w"
  "tile_offs (repoint ids p w) = tile_offs w"
  "station_stops (repoint ids p w) = station_stops w"
  "platforms (repoint ids p w) = platforms w"
  "vehicles_on (repoint ids p w) = vehicles_on w"
  "vehicle (repoint ids p w) = vehicle w"
  by (induction ids arbitrary: w; simp add: repoint_Cons)+

lemma repoint_road_stop:
  "road_stop (repoint ids p w) i =
     (if i \<in> set ids then map_option (platform_update (\<lambda>_. p)) (road_stop w i) else road_stop w i)"
proof (induction ids arbitrary: w)
  case Nil
  show ?case by simp
next
  case (Cons j ids)
  show ?case
    by (cases "road_stop w j") (auto simp: repoint_Cons Cons option.map_comp comp_def)
qed

lemma same_map_repoint [simp]: "same_map w (repoint ids p w)"
  by (auto simp: same_map_def repoint_road_stop option.map_comp comp_def)

lemma plat_get_repoint [simp]: "plat_get (repoint ids p w) = plat_get w"
  by (simp add: plat_get_def fun_eq_iff)

lemma platform_of_repoint:
  "platform_of (repoint ids p w) i =
     (if i \<in> set ids \<and> road_stop w i \<noteq> None then p else platform_of w i)"
  by (auto simp: platform_of_def repoint_road_stop split: Option.bind_splits)

subsection \<open>Runs of tiles\<close>

lemma length_tiles_from [simp]: "length (tiles_from t off n) = n"
  by (induction n arbitrary: t) simp_all

lemma tiles_from_nth: "i < n \<Longrightarrow> tiles_from t off n ! i = t + of_nat i * off"
proof (induction n arbitrary: t i)
  case 0
  then show ?case by simp
next
  case (Suc n)
  show ?case
  proof (cases i)
    case 0
    then show ?thesis by simp
  next
    case (Suc j)
    with Suc.prems have "j < n" by simp
    from Suc.IH[OF this, of "t + off"] Suc show ?thesis
      by (simp add: algebra_simps)
  qed
qed

lemma tiles_from_map: "tiles_from t off n = map (\<lambda>i. t + of_nat i * off) [0..<n]"
  by (rule nth_equalityI) (simp_all add: tiles_from_nth)

lemma set_tiles_from: "set (tiles_from t off n) = (\<lambda>i. t + of_nat i * off) ` {..<n}"
  by (simp add: tiles_from_map lessThan_atLeast0)

lemma tiles_from_append:
  "tiles_from t off (m + n) = tiles_from t off m @ tiles_from (t + of_nat m * off) off n"
proof (induction m arbitrary: t)
  case 0
  show ?case by simp
next
  case (Suc m)
  show ?case
    using Suc[of "t + off"] by (simp add: algebra_simps)
qed

lemma tiles_from_Suc_end:
  "tiles_from t off (Suc n) = tiles_from t off n @ [t + of_nat n * off]"
  using tiles_from_append[of t off n 1] by simp

lemma tiles_from_distinct:
  assumes "list_all P (tiles_from t off n)" and "\<not> P (t + of_nat n * off)"
  shows "distinct (tiles_from t off n)"
proof -
  have "i = j" if "i < n" "j < n" "i \<le> j" "t + of_nat i * off = t + of_nat j * off" for i j
  proof (rule ccontr)
    assume "i \<noteq> j"
    with that have lt: "i < j" by simp
    define d where "d = j - i"
    have d: "0 < d" "d \<le> n" "j = i + d" using lt that by (simp_all add: d_def)
    from that(4) have z: "of_nat d * off = 0"
      by (simp add: d(3) algebra_simps)
    have "n = (n - d) + d" using d(2) by simp
    then have "of_nat n * off = of_nat (n - d) * off + of_nat d * off"
      by (metis of_nat_add distrib_right)
    with z have "t + of_nat n * off = t + of_nat (n - d) * off"
      by simp
    moreover have "n - d < n" using d by simp
    then have "t + of_nat (n - d) * off \<in> set (tiles_from t off n)"
      by (auto simp: set_tiles_from)
    ultimately show False
      using assms by (auto simp: list_all_iff)
  qed
  note le = this
  have "i = j" if "i < n" "j < n" "t + of_nat i * off = t + of_nat j * off" for i j
  proof (cases "i \<le> j")
    case True
    with that show ?thesis by (intro le)
  next
    case False
    then have "j \<le> i" by simp
    with that have "j = i" by (intro le) simp_all
    then show ?thesis by simp
  qed
  then show ?thesis
    by (auto simp: distinct_conv_nth tiles_from_nth)
qed

subsection \<open>The stops on a run\<close>

lemma stops_at_length: "stops_at w rst ts ids \<Longrightarrow> length ids = length ts"
  unfolding stops_at_def by (metis length_map)

lemma stops_at_nth:
  "stops_at w rst ts ids \<Longrightarrow> i < length ts \<Longrightarrow> GetByTile w (ts ! i) rst = Inr (ids ! i)"
  unfolding stops_at_def by (metis length_map nth_map)

lemma stops_at_Nil [simp]: "stops_at w rst [] ids \<longleftrightarrow> ids = []"
  by (auto simp: stops_at_def)

lemma stops_at_Cons:
  "stops_at w rst (t # ts) ids \<longleftrightarrow>
     (\<exists>i ids'. ids = i # ids' \<and> GetByTile w t rst = Inr i \<and> stops_at w rst ts ids')"
  by (cases ids) (auto simp: stops_at_def)


lemma stops_at_xy:
  assumes "stops_at w rst ts ids" and "i < length ts"
  shows "\<exists>r. road_stop w (ids ! i) = Some r \<and> xy r = ts ! i"
  using stops_at_nth[OF assms] by (rule GetByTile_Inr)

lemma stops_at_set_xy:
  assumes "stops_at w rst ts ids" and "i \<in> set ids"
  shows "\<exists>r. road_stop w i = Some r \<and> xy r \<in> set ts"
proof -
  from assms(2) obtain k where k: "k < length ids" "ids ! k = i"
    by (auto simp: in_set_conv_nth)
  with stops_at_length[OF assms(1)] have "k < length ts" by simp
  from stops_at_xy[OF assms(1) this] k this show ?thesis by auto
qed

lemma stops_at_distinct:
  assumes "stops_at w rst ts ids" and "distinct ts"
  shows "distinct ids"
proof -
  have len: "length ids = length ts" using assms(1) by (rule stops_at_length)
  have "i = j" if "i < length ids" "j < length ids" "ids ! i = ids ! j" for i j
  proof -
    from that len stops_at_xy[OF assms(1), of i] stops_at_xy[OF assms(1), of j]
    have "ts ! i = ts ! j" by auto
    with assms(2) that len show ?thesis
      by (simp add: nth_eq_iff_index_eq)
  qed
  then show ?thesis
    by (auto simp: distinct_conv_nth)
qed

lemma stops_at_not_in:
  assumes "stops_at w rst ts ids" and "road_stop w i = Some r" and "xy r \<notin> set ts"
  shows "i \<notin> set ids"
proof
  assume "i \<in> set ids"
  from stops_at_set_xy[OF assms(1) this] obtain r' where "road_stop w i = Some r'" "xy r' \<in> set ts"
    by blast
  with assms(2,3) show False by simp
qed

subsection \<open>The loops on a run\<close>

lemma IsCont_trans:
  "IsDriveThroughRoadStopContinuation w a b \<Longrightarrow>
   IsDriveThroughRoadStopContinuation w b c = IsDriveThroughRoadStopContinuation w a c"
  by (auto simp: IsDriveThroughRoadStopContinuation_def)

lemma MakeDriveThrough_loop_run:
  assumes "list_all (IsDriveThroughRoadStopContinuation w this_xy) (tiles_from t off n)"
    and "\<not> IsDriveThroughRoadStopContinuation w this_xy (t + of_nat n * off)"
    and "stops_at w rst (tiles_from t off n) ids"
    and "distinct ids" and "rn \<notin> set ids"
    and "list_all (\<lambda>i. platform_of w i \<noteq> None) ids"
  shows "MakeDriveThrough_loop this_xy rst off rn t w added =
           Some (Inr (repoint ids (platform_of w rn) w, added + int n))"
  using assms
proof (induction n arbitrary: t w added ids)
  case 0
  then show ?case
    by (subst MakeDriveThrough_loop.simps) simp
next
  case (Suc n)
  from Suc.prems(3) obtain i ids' where ids: "ids = i # ids'"
    and g: "GetByTile w t rst = Inr i" and st: "stops_at w rst (tiles_from (t + off) off n) ids'"
    by (auto simp: stops_at_Cons)
  define w' where "w' = rs_update i (platform_update (\<lambda>_. platform_of w rn)) w"
  have sm: "same_map w w'" by (simp add: w'_def)
  have c: "IsDriveThroughRoadStopContinuation w this_xy t" using Suc.prems(1) by simp
  have p: "platform_of w i \<noteq> None" using Suc.prems(6) ids by simp
  have ne: "rn \<noteq> i" "i \<notin> set ids'" "distinct ids'" "rn \<notin> set ids'"
    using Suc.prems(4,5) ids by auto
  have prn: "platform_of w' rn = platform_of w rn"
    using ne by (simp add: w'_def platform_of_def)
  have "MakeDriveThrough_loop this_xy rst off rn (t + off) w' (added + 1) =
          Some (Inr (repoint ids' (platform_of w' rn) w', added + 1 + int n))"
  proof (rule Suc.IH)
    show "list_all (IsDriveThroughRoadStopContinuation w' this_xy) (tiles_from (t + off) off n)"
      using Suc.prems(1) by (simp add: same_map_IsCont[OF sm])
    show "\<not> IsDriveThroughRoadStopContinuation w' this_xy (t + off + of_nat n * off)"
      using Suc.prems(2) by (simp add: same_map_IsCont[OF sm] algebra_simps)
    show "stops_at w' rst (tiles_from (t + off) off n) ids'"
      using st by (simp add: same_map_stops_at[OF sm])
    show "distinct ids'" "rn \<notin> set ids'" by (rule ne)+
    show "list_all (\<lambda>i. platform_of w' i \<noteq> None) ids'"
      using Suc.prems(6) ne ids by (auto simp: list_all_iff w'_def platform_of_def)
  qed
  with prn have "MakeDriveThrough_loop this_xy rst off rn (t + off) w' (added + 1) =
          Some (Inr (repoint ids' (platform_of w rn) w', added + 1 + int n))"
    by simp
  then have "MakeDriveThrough_loop this_xy rst off rn (t + off) w' (added + 1) =
          Some (Inr (repoint ids (platform_of w rn) w, added + int (Suc n)))"
    by (simp add: ids repoint_Cons w'_def)
  then show ?case
    using c g p by (subst MakeDriveThrough_loop.simps) (simp add: w'_def)
qed

lemma ClearDriveThrough_south_run:
  assumes "list_all (IsDriveThroughRoadStopContinuation w base_tile) (tiles_from t off n)"
    and "\<not> IsDriveThroughRoadStopContinuation w base_tile (t + of_nat n * off)"
    and "stops_at w rst (tiles_from t off n) ids"
    and "distinct ids" and "b \<notin> set ids"
  shows "ClearDriveThrough_south base_tile rst off b t w =
           Some (Inr (repoint ids (platform_of w b) w))"
  using assms
proof (induction n arbitrary: t w ids)
  case 0
  then show ?case
    by (subst ClearDriveThrough_south.simps) simp
next
  case (Suc n)
  from Suc.prems(3) obtain i ids' where ids: "ids = i # ids'"
    and g: "GetByTile w t rst = Inr i" and st: "stops_at w rst (tiles_from (t + off) off n) ids'"
    by (auto simp: stops_at_Cons)
  define w' where "w' = rs_update i (platform_update (\<lambda>_. platform_of w b)) w"
  have sm: "same_map w w'" by (simp add: w'_def)
  have c: "IsDriveThroughRoadStopContinuation w base_tile t" using Suc.prems(1) by simp
  have ne: "b \<noteq> i" "distinct ids'" "b \<notin> set ids'"
    using Suc.prems(4,5) ids by auto
  have pb: "platform_of w' b = platform_of w b"
    using ne by (simp add: w'_def platform_of_def)
  have "ClearDriveThrough_south base_tile rst off b (t + off) w' =
          Some (Inr (repoint ids' (platform_of w' b) w'))"
  proof (rule Suc.IH)
    show "list_all (IsDriveThroughRoadStopContinuation w' base_tile) (tiles_from (t + off) off n)"
      using Suc.prems(1) by (simp add: same_map_IsCont[OF sm])
    show "\<not> IsDriveThroughRoadStopContinuation w' base_tile (t + off + of_nat n * off)"
      using Suc.prems(2) by (simp add: same_map_IsCont[OF sm] algebra_simps)
    show "stops_at w' rst (tiles_from (t + off) off n) ids'"
      using st by (simp add: same_map_stops_at[OF sm])
    show "distinct ids'" "b \<notin> set ids'" by (rule ne)+
  qed
  with pb have "ClearDriveThrough_south base_tile rst off b (t + off) w' =
          Some (Inr (repoint ids' (platform_of w b) w'))"
    by simp
  then have "ClearDriveThrough_south base_tile rst off b (t + off) w' =
          Some (Inr (repoint ids (platform_of w b) w))"
    by (simp add: ids repoint_Cons w'_def)
  then show ?case
    using c g by (subst ClearDriveThrough_south.simps) (simp add: w'_def)
qed

text \<open>The walk to the north: over the tiles \<open>t\<close>, \<open>t - off\<close>, ... it ends with the stop of the last.\<close>

lemma ClearDriveThrough_north_run:
  assumes "list_all (IsDriveThroughRoadStopContinuation w base_tile) (tiles_from t (- off) n)"
    and "\<not> IsDriveThroughRoadStopContinuation w base_tile (t + of_nat n * (- off))"
    and "stops_at w rst (tiles_from t (- off) n) ids"
  shows "ClearDriveThrough_north w base_tile rst off t r = Some (Inr (last (r # ids)))"
  using assms
proof (induction n arbitrary: t r ids)
  case 0
  then show ?case
    by (subst ClearDriveThrough_north.simps) simp
next
  case (Suc n)
  from Suc.prems(3) obtain i ids' where ids: "ids = i # ids'"
    and g: "GetByTile w t rst = Inr i" and st: "stops_at w rst (tiles_from (t + - off) (- off) n) ids'"
    by (auto simp: stops_at_Cons)
  have c: "IsDriveThroughRoadStopContinuation w base_tile t" using Suc.prems(1) by simp
  have "ClearDriveThrough_north w base_tile rst off (t + - off) i = Some (Inr (last (i # ids')))"
  proof (rule Suc.IH)
    show "list_all (IsDriveThroughRoadStopContinuation w base_tile) (tiles_from (t + - off) (- off) n)"
      using Suc.prems(1) by simp
    show "\<not> IsDriveThroughRoadStopContinuation w base_tile (t + - off + of_nat n * (- off))"
      using Suc.prems(2) by (simp add: algebra_simps)
    show "stops_at w rst (tiles_from (t + - off) (- off) n) ids'" by (rule st)
  qed
  then show ?case
    using c g by (subst ClearDriveThrough_north.simps) (simp add: ids)
qed

text \<open>The tiles of a run, read from its southern end to the north.\<close>

lemma tiles_from_rev:
  "rev (tiles_from t off n) = tiles_from (t + of_nat n * off - off) (- off) n"
proof (induction n arbitrary: t)
  case 0
  show ?case by simp
next
  case (Suc n)
  have "rev (tiles_from t off (Suc n)) = (t + of_nat n * off) # rev (tiles_from t off n)"
    by (subst tiles_from_Suc_end) simp
  also have "\<dots> = (t + of_nat n * off) # tiles_from (t + of_nat n * off - off) (- off) n"
    by (simp add: Suc)
  finally show ?case
    by (simp add: algebra_simps)
qed



declare tiles_from.simps(2) [simp del]

lemma neighbour_SomeI:
  "IsDriveThroughRoadStopContinuation w x t \<Longrightarrow> GetByTile w t rst = Inr i \<Longrightarrow>
   neighbour w x rst t = Inr (Some i)"
  by (simp add: neighbour_def)

lemma platform_of_rs_update_platform:
  "platform_of (rs_update j (platform_update (\<lambda>_. p)) w) i =
     (if i = j \<and> road_stop w j \<noteq> None then p else platform_of w i)"
  by (auto simp: platform_of_def split: Option.bind_splits)

lemma plat_get_platforms:
  "plat_get (w\<lparr>platforms := ps\<rparr>) a = (if a < length ps then ps ! a else None)"
  by (simp add: plat_get_def)

lemma plat_get_less: "plat_get w a = Some pl \<Longrightarrow> a < length (platforms w)"
  by (auto simp: plat_get_def split: if_splits)

lemma plat_get_nth: "plat_get w a = Some pl \<Longrightarrow> platforms w ! a = Some pl"
  by (auto simp: plat_get_def split: if_splits)

lemma platform_of_platforms [simp]: "platform_of (w\<lparr>platforms := ps\<rparr>) = platform_of w"
  by (simp add: platform_of_def fun_eq_iff)

lemma rs_update_platforms_commute:
  "rs_update i f (w\<lparr>platforms := ps\<rparr>) = (rs_update i f w)\<lparr>platforms := ps\<rparr>"
  by (simp add: rs_update_def)

lemma repoint_platforms_commute:
  "repoint ids p (w\<lparr>platforms := ps\<rparr>) = (repoint ids p w)\<lparr>platforms := ps\<rparr>"
  by (induction ids arbitrary: w) (simp_all add: repoint_Cons rs_update_platforms_commute)

text \<open>The join of a northern and a southern platform, with the state it leaves.\<close>

lemma MakeDriveThrough_join_run:
  assumes ths: "road_stop w this = Some rs" "platform rs = Some pn"
    and run: "list_all (IsDriveThroughRoadStopContinuation w x) (tiles_from st off (Suc n))"
      "\<not> IsDriveThroughRoadStopContinuation w x (st + of_nat (Suc n) * off)"
    and stops: "stops_at w rst (tiles_from st off (Suc n)) (s # ids)"
    and dist: "distinct (s # ids)" "this \<notin> set (s # ids)" "rn \<notin> set (s # ids)"
    and pl: "list_all (\<lambda>i. platform_of w i \<noteq> None) (s # ids)" "platform_of w s = Some ps"
      "platform_of w rn = Some pn"
    and heap: "plat_get w pn = Some PN" "plat_get w ps = Some PS" "pn \<noteq> ps"
  shows "MakeDriveThrough_join this x rst off rn s st w =
     Some (Inr ((repoint (s # ids) (Some pn)
                  (rs_update s (status_update (\<lambda>x. ClrBit x RSSFB_BASE_ENTRY)) w))
                 \<lparr>platforms := (platforms w)
                     [pn := Some (PN\<lparr>occupied_east := occupied_east PN + occupied_east PS,
                                     occupied_west := occupied_west PN + occupied_west PS\<rparr>),
                      ps := None]\<rparr>,
                1 + int (Suc n)))"
proof -
  define w1 where "w1 = rs_update s (status_update (\<lambda>x. ClrBit x RSSFB_BASE_ENTRY)) w"
  have sm1: "same_map w w1" by (simp add: w1_def)
  have p1: "platform_of w1 s = Some ps" "platform_of w1 this = Some pn" "platform_of w1 rn = Some pn"
  proof -
    have "platform_of w this = Some pn" using ths by (simp add: platform_of_def)
    then show "platform_of w1 s = Some ps" "platform_of w1 this = Some pn" "platform_of w1 rn = Some pn"
      using pl by (simp_all add: w1_def)
  qed
  have g1: "plat_get w1 ps = Some PS" "plat_get w1 pn = Some PN"
    using heap by (simp_all add: w1_def)
  define w2 where "w2 = w1\<lparr>platforms := (platforms w1)[pn := Some (occupied_east_update (\<lambda>x. x + occupied_east PS) PN)]\<rparr>"
  have m2: "plat_modify (Some pn) (occupied_east_update (\<lambda>x. x + occupied_east PS)) w1 = Inr w2"
    by (simp add: plat_modify_Some[OF g1(2)] w2_def)
  have lp: "pn < length (platforms w)" "ps < length (platforms w)"
    using heap by (auto dest: plat_get_less)
  have p2: "platform_of w2 s = Some ps" "platform_of w2 this = Some pn"
    using p1 by (simp_all add: w2_def)
  have g2: "plat_get w2 ps = Some PS"
    "plat_get w2 pn = Some (occupied_east_update (\<lambda>x. x + occupied_east PS) PN)"
    using heap lp plat_get_nth[OF heap(2)]
    by (simp_all add: w2_def plat_get_platforms w1_def)
  define PN' where "PN' = occupied_west_update (\<lambda>x. x + occupied_west PS)
      (occupied_east_update (\<lambda>x. x + occupied_east PS) PN)"
  define w3 where "w3 = w2\<lparr>platforms := (platforms w2)[pn := Some PN']\<rparr>"
  have m3: "plat_modify (Some pn) (occupied_west_update (\<lambda>x. x + occupied_west PS)) w2 = Inr w3"
    by (simp add: plat_modify_Some[OF g2(2)] w3_def PN'_def)
  have p3: "platform_of w3 s = Some ps"
    using p2 by (simp add: w3_def)
  have g3: "plat_get w3 ps = Some PS"
    using heap lp plat_get_nth[OF heap(2)]
    by (simp add: w3_def w2_def plat_get_platforms w1_def)
  define w4 where "w4 = w3\<lparr>platforms := (platforms w3)[ps := None]\<rparr>"
  have m4: "plat_delete (Some ps) w3 = Inr w4"
    by (simp add: plat_delete_Some[OF g3] w4_def)
  have w4: "w4 = w1\<lparr>platforms := (platforms w)[pn := Some PN', ps := None]\<rparr>"
    by (simp add: w4_def w3_def w2_def w1_def)
  have sm4: "same_map w w4"
    unfolding w4 using sm1 by (simp add: same_map_def)
  have p4: "platform_of w4 = platform_of w1"
    by (simp add: w4)
  have loop: "MakeDriveThrough_loop x rst off rn st w4 1 =
      Some (Inr (repoint (s # ids) (platform_of w4 rn) w4, 1 + int (Suc n)))"
  proof (rule MakeDriveThrough_loop_run)
    show "list_all (IsDriveThroughRoadStopContinuation w4 x) (tiles_from st off (Suc n))"
      using run(1) by (simp add: same_map_IsCont[OF sm4])
    show "\<not> IsDriveThroughRoadStopContinuation w4 x (st + of_nat (Suc n) * off)"
      using run(2) by (simp add: same_map_IsCont[OF sm4])
    show "stops_at w4 rst (tiles_from st off (Suc n)) (s # ids)"
      using stops by (simp add: same_map_stops_at[OF sm4])
    show "distinct (s # ids)" "rn \<notin> set (s # ids)" by (rule dist)+
    show "list_all (\<lambda>i. platform_of w4 i \<noteq> None) (s # ids)"
      using pl(1) by (simp add: p4 w1_def)
  qed
  have PN': "PN' = PN\<lparr>occupied_east := occupied_east PN + occupied_east PS,
                      occupied_west := occupied_west PN + occupied_west PS\<rparr>"
    by (cases PN) (simp add: PN'_def)
  have "MakeDriveThrough_join this x rst off rn s st w =
      Some (Inr (repoint (s # ids) (platform_of w4 rn) w4, 1 + int (Suc n)))"
    unfolding MakeDriveThrough_join_def
    by (simp add: Let_def w1_def[symmetric] p1 plat_read_Some[OF g1(1)] m2 p2 plat_read_Some[OF g2(1)]
        m3 p3 m4 loop)
  then show ?thesis
    using pl(3) by (simp add: p4 p1 w4 repoint_platforms_commute PN' w1_def)
qed

lemma MakeDriveThrough_okI:
  assumes "road_stop w this = Some rs" and "platform rs = None"
    and "neighbour w (xy rs) (GetRoadStopType w (xy rs)) (xy rs - south_offset w (xy rs)) = Inr rn"
    and "neighbour w (xy rs) (GetRoadStopType w (xy rs)) (xy rs + south_offset w (xy rs)) = Inr rsth"
    and "MakeDriveThrough_cases this (xy rs) (GetRoadStopType w (xy rs)) (south_offset w (xy rs))
           rn rsth (xy rs + south_offset w (xy rs)) w = Some (Inr (w', added))"
    and "plat_modify (platform_of w' this) (plat_length_update (\<lambda>l. l + added * TILE_SIZE)) w' = Inr w''"
  shows "MakeDriveThrough this w = Some (Inr w'')"
  using assms by (simp add: MakeDriveThrough_def Let_def lift_def)

text \<open>
  \<^verbatim>\<open>MakeDriveThrough\<close> between a northern neighbour with a platform and a southern run of
  stops with another platform: the state it returns.
\<close>

lemma MakeDriveThrough_merge:
  assumes ths: "road_stop w this = Some rs" "platform rs = None"
    and x: "xy rs = x" "south_offset w x = off" "GetRoadStopType w x = rst"
    and north: "IsDriveThroughRoadStopContinuation w x (x - off)" "GetByTile w (x - off) rst = Inr rn"
      "platform_of w rn = Some pn"
    and run: "list_all (IsDriveThroughRoadStopContinuation w x) (tiles_from (x + off) off (Suc n))"
      "\<not> IsDriveThroughRoadStopContinuation w x (x + off + of_nat (Suc n) * off)"
    and stops: "stops_at w rst (tiles_from (x + off) off (Suc n)) (s # ids)"
    and sep: "x \<notin> set (tiles_from (x + off) off (Suc n))" "x - off \<notin> set (tiles_from (x + off) off (Suc n))"
    and pl: "list_all (\<lambda>i. platform_of w i \<noteq> None) (s # ids)" "platform_of w s = Some ps"
    and heap: "plat_get w pn = Some PN" "plat_get w ps = Some PS" "pn \<noteq> ps"
  shows "MakeDriveThrough this w =
     Some (Inr ((repoint (s # ids) (Some pn)
                  (rs_update s (status_update (\<lambda>x. ClrBit x RSSFB_BASE_ENTRY))
                     (rs_update this (platform_update (\<lambda>_. Some pn)) w)))
                 \<lparr>platforms := (platforms w)
                     [pn := Some (PN\<lparr>plat_length := plat_length PN + (2 + int n) * TILE_SIZE,
                                     occupied_east := occupied_east PN + occupied_east PS,
                                     occupied_west := occupied_west PN + occupied_west PS\<rparr>),
                      ps := None]\<rparr>))"
proof -
  let ?T = "tiles_from (x + off) off (Suc n)"
  have dT: "distinct ?T"
    using run by (intro tiles_from_distinct[where P = "IsDriveThroughRoadStopContinuation w x"])
      (simp_all add: algebra_simps)
  have dist: "distinct (s # ids)" using stops dT by (rule stops_at_distinct)
  have tn: "this \<notin> set (s # ids)"
    using stops ths(1) by (rule stops_at_not_in) (simp only: x sep not_False_eq_True)
  from GetByTile_Inr[OF north(2)] obtain r where r: "road_stop w rn = Some r" "xy r = x - off" by blast
  have rnn: "rn \<notin> set (s # ids)"
    using stops r(1) by (rule stops_at_not_in) (simp only: r sep not_False_eq_True)
  have sS: "GetByTile w (x + off) rst = Inr s"
    using stops by (simp add: stops_at_Cons tiles_from.simps(2))
  have cS: "IsDriveThroughRoadStopContinuation w x (x + off)"
    using run(1) by (simp add: tiles_from.simps(2))
  define w1 where "w1 = rs_update this (platform_update (\<lambda>_. Some pn)) w"
  have sm1: "same_map w w1" by (simp add: w1_def)
  have p1: "platform_of w1 rn = Some pn" "platform_of w1 s = Some ps"
    "list_all (\<lambda>i. platform_of w1 i \<noteq> None) (s # ids)"
    using north(3) pl tn by (auto simp: w1_def platform_of_rs_update_platform list_all_iff)
  have this1: "road_stop w1 this = Some (rs\<lparr>platform := Some pn\<rparr>)"
    using ths by (simp add: w1_def)
  define PN' where "PN' = PN\<lparr>occupied_east := occupied_east PN + occupied_east PS,
                              occupied_west := occupied_west PN + occupied_west PS\<rparr>"
  define w5 where "w5 = (repoint (s # ids) (Some pn)
                  (rs_update s (status_update (\<lambda>x. ClrBit x RSSFB_BASE_ENTRY)) w1))
                 \<lparr>platforms := (platforms w)[pn := Some PN', ps := None]\<rparr>"
  have run1: "list_all (IsDriveThroughRoadStopContinuation w1 x) ?T"
    "\<not> IsDriveThroughRoadStopContinuation w1 x (x + off + of_nat (Suc n) * off)"
    unfolding same_map_IsCont[OF sm1] by (rule run)+
  have st1: "stops_at w1 rst ?T (s # ids)"
    unfolding same_map_stops_at[OF sm1] by (rule stops)
  have heap1: "plat_get w1 pn = Some PN" "plat_get w1 ps = Some PS"
    using heap by (simp_all add: w1_def)
  have pp: "platform (rs\<lparr>platform := Some pn\<rparr>) = Some pn" by simp
  have pw: "platforms w1 = platforms w" by (simp add: w1_def)
  have join: "MakeDriveThrough_join this x rst off rn s (x + off) w1 = Some (Inr (w5, 1 + int (Suc n)))"
    unfolding w5_def PN'_def pw[symmetric]
    by (rule MakeDriveThrough_join_run[OF this1 pp run1 st1 dist tn rnn p1(3) p1(2) p1(1) heap1 heap(3)])
  have cases: "MakeDriveThrough_cases this x rst off (Some rn) (Some s) (x + off) w =
      Some (Inr (w5, 1 + int (Suc n)))"
    using north(3) p1(2) join
    by (simp add: MakeDriveThrough_cases_def ptr_platform_def Let_def w1_def[symmetric])
  have pt: "platform_of w5 this = Some pn"
    using tn this1 by (simp add: w5_def platform_of_repoint) (simp add: platform_of_def)
  have lp: "pn < length (platforms w)" "ps < length (platforms w)"
    using heap by (auto dest: plat_get_less)
  have g5: "plat_get w5 pn = Some PN'"
    using lp heap(3) by (simp add: w5_def plat_get_platforms)
  have fin: "plat_modify (platform_of w5 this) (plat_length_update (\<lambda>l. l + (1 + int (Suc n)) * TILE_SIZE)) w5 =
      Inr (w5\<lparr>platforms := (platforms w5)[pn := Some (plat_length_update (\<lambda>l. l + (1 + int (Suc n)) * TILE_SIZE) PN')]\<rparr>)"
    unfolding pt by (rule plat_modify_Some[OF g5])
  have "MakeDriveThrough this w =
      Some (Inr (w5\<lparr>platforms := (platforms w5)[pn := Some (plat_length_update (\<lambda>l. l + (1 + int (Suc n)) * TILE_SIZE) PN')]\<rparr>))"
  proof (rule MakeDriveThrough_okI[OF ths _ _ _ fin])
    show "neighbour w (xy rs) (GetRoadStopType w (xy rs)) (xy rs - south_offset w (xy rs)) = Inr (Some rn)"
      unfolding x by (rule neighbour_SomeI[OF north(1,2)])
    show "neighbour w (xy rs) (GetRoadStopType w (xy rs)) (xy rs + south_offset w (xy rs)) = Inr (Some s)"
      unfolding x by (rule neighbour_SomeI[OF cS sS])
    show "MakeDriveThrough_cases this (xy rs) (GetRoadStopType w (xy rs)) (south_offset w (xy rs))
       (Some rn) (Some s) (xy rs + south_offset w (xy rs)) w = Some (Inr (w5, 1 + int (Suc n)))"
      unfolding x by (rule cases)
  qed
  moreover have "plat_length_update (\<lambda>l. l + (1 + int (Suc n)) * TILE_SIZE) PN' =
      PN\<lparr>plat_length := plat_length PN + (2 + int n) * TILE_SIZE,
          occupied_east := occupied_east PN + occupied_east PS,
          occupied_west := occupied_west PN + occupied_west PS\<rparr>"
    by (cases PN) (simp add: PN'_def)
  ultimately show ?thesis
    using heap(3) by (simp add: w5_def w1_def list_update_swap[of pn ps])
qed

lemma stops_at_append_length:
  assumes "stops_at w rst (ts @ ts') (a @ b)" and "length a = length ts"
  shows "stops_at w rst ts a" and "stops_at w rst ts' b"
  using assms by (auto simp: stops_at_def)

lemma plat_get_list_update:
  "plat_get (w\<lparr>platforms := (platforms w)[a := v]\<rparr>) q =
     (if q = a \<and> a < length (platforms w) then v else plat_get w q)"
  by (auto simp: plat_get_def)



subsection \<open>Clearing a square\<close>

lemma IsCont_DoClearSquare:
  "IsDriveThroughRoadStopContinuation (DoClearSquare t w) a c =
     (c \<noteq> t \<and> IsDriveThroughRoadStopContinuation w a c)"
  by (auto simp: IsDriveThroughRoadStopContinuation_def DoClearSquare_def IsStationTile_def
      GetStationIndex_def GetStationType_def IsDriveThroughStopTile_def GetRoadStopAxis_def)

lemma GetStationIndex_DoClearSquare [simp]:
  "GetStationIndex (DoClearSquare t w) = GetStationIndex w"
  by (simp add: fun_eq_iff GetStationIndex_def DoClearSquare_def)

lemma GetByTile_DoClearSquare [simp]: "GetByTile (DoClearSquare t w) = GetByTile w"
  by (simp add: fun_eq_iff GetByTile_def)

lemma DoClearSquare_accessors [simp]:
  "stops_at (DoClearSquare t w) = stops_at w"
  "Rebuild_offset (DoClearSquare t w) = Rebuild_offset w"
  "Rebuild_dir_east (DoClearSquare t w) = Rebuild_dir_east w"
  "occupancy (DoClearSquare t w) = occupancy w"
  "directions_ok (DoClearSquare t w) = directions_ok w"
  "GetRoadStopType (DoClearSquare t w) = GetRoadStopType w"
  "south_offset (DoClearSquare t w) = south_offset w"
  by (simp_all add: fun_eq_iff stops_at_def Rebuild_offset_def Rebuild_dir_east_def
      occupancy_def directions_ok_def GetRoadStopType_def south_offset_def
      TileOffsByDiagDir_def GetRoadStopDir_def GetRoadStopAxis_def
      vehicles_in_def counted_def)
    (simp_all add: DoClearSquare_def)

lemma stops_at_rev: "stops_at w rst ts ids \<Longrightarrow> stops_at w rst (rev ts) (rev ids)"
  by (simp add: stops_at_def rev_map[symmetric])

lemma ClearDriveThrough_okI:
  assumes "road_stop w this = Some rs" and "platform rs \<noteq> None"
    and "neighbour w (xy rs) (GetRoadStopType w (xy rs)) (xy rs - south_offset w (xy rs)) = Inr rn"
    and "neighbour w (xy rs) (GetRoadStopType w (xy rs)) (xy rs + south_offset w (xy rs)) = Inr rsth"
  shows "ClearDriveThrough this w =
     bindR (ClearDriveThrough_cases this (GetRoadStopType w (xy rs)) (south_offset w (xy rs))
              rn (xy rs - south_offset w (xy rs)) rsth (xy rs + south_offset w (xy rs))
              (DoClearSquare (xy rs) w))
       (\<lambda>w'. ok (rs_update this (platform_update (\<lambda>_. None))
                   (rs_update this (status_update (\<lambda>x. ClrBit x RSSFB_BASE_ENTRY)) w')))"
  using assms by (auto simp: ClearDriveThrough_def Let_def)

lemma RoadStop_Rebuild_run:
  assumes "road_stop w i = Some r" and "platform r = Some p" and "plat_get w p = Some pl"
    and "xy r = b"
    and "list_all (IsDriveThroughRoadStopContinuation w b) (tiles_from b (Rebuild_offset w b) n)"
    and "\<not> IsDriveThroughRoadStopContinuation w b (b + of_nat n * Rebuild_offset w b)"
  shows "RoadStop_Rebuild i w =
     (if directions_ok w (tiles_from b (Rebuild_offset w b) n) (Rebuild_dir_east w b)
      then Some (Inr (w\<lparr>platforms := (platforms w)[p := Some
              \<lparr>plat_length = TILE_SIZE * int n,
               occupied_east = occupancy w (tiles_from b (Rebuild_offset w b) n) (Rebuild_dir_east w b),
               occupied_west = occupancy w (tiles_from b (Rebuild_offset w b) n)
                                 (ReverseDir (Rebuild_dir_east w b))\<rparr>]\<rparr>))
      else Some (Inl AssertionFailed))"
  using assms(1-4) Platform_Rebuild_run[OF assms(5,6)]
  by (simp add: RoadStop_Rebuild_def plat_modify_Some lift_def)

text \<open>
  \<^verbatim>\<open>ClearDriveThrough\<close> on a stop with \<open>Suc j\<close> tiles of its run to the north and
  \<open>Suc n\<close> tiles to the south: the state it returns.
\<close>

lemma ClearDriveThrough_split_run:
  assumes ths: "road_stop w this = Some rs" "platform rs \<noteq> None"
    and x: "xy rs = x" "south_offset w x = off" "GetRoadStopType w x = rst"
    and b: "b = x - of_nat (Suc j) * off"
    and run: "list_all (IsDriveThroughRoadStopContinuation w x) (tiles_from b off (Suc j + 1 + Suc n))"
      "\<not> IsDriveThroughRoadStopContinuation w x (b - off)"
      "\<not> IsDriveThroughRoadStopContinuation w x (x + off + of_nat (Suc n) * off)"
    and stops: "stops_at w rst (tiles_from b off (Suc j)) idsN"
      "stops_at w rst (tiles_from (x + off) off (Suc n)) (s # idsS)"
    and base: "road_stop w (hd idsN) = Some rb" "HasBit (status rb) RSSFB_BASE_ENTRY"
      "platform rb = Some p" "plat_get w p = Some P"
    and reb: "Rebuild_offset w b = off" "Rebuild_offset w (x + off) = off"
  shows "ClearDriveThrough this w =
     (if directions_ok w (tiles_from (x + off) off (Suc n)) (Rebuild_dir_east w (x + off)) \<and>
         directions_ok w (tiles_from b off (Suc j)) (Rebuild_dir_east w b)
      then Some (Inr
        (rs_update this (platform_update (\<lambda>_. None))
          (rs_update this (status_update (\<lambda>x. ClrBit x RSSFB_BASE_ENTRY))
            ((repoint (s # idsS) (Some (length (platforms w)))
               (rs_update s (status_update (\<lambda>x. SetBit x RSSFB_BASE_ENTRY)) (DoClearSquare x w)))
             \<lparr>platforms := (platforms w @
                 [Some \<lparr>plat_length = TILE_SIZE * int (Suc n),
                        occupied_east = occupancy w (tiles_from (x + off) off (Suc n)) (Rebuild_dir_east w (x + off)),
                        occupied_west = occupancy w (tiles_from (x + off) off (Suc n))
                                          (ReverseDir (Rebuild_dir_east w (x + off)))\<rparr>])
                 [p := Some \<lparr>plat_length = TILE_SIZE * int (Suc j),
                        occupied_east = occupancy w (tiles_from b off (Suc j)) (Rebuild_dir_east w b),
                        occupied_west = occupancy w (tiles_from b off (Suc j))
                                          (ReverseDir (Rebuild_dir_east w b))\<rparr>]\<rparr>))))
      else Some (Inl AssertionFailed))"
proof -
  let ?TN = "tiles_from b off (Suc j)"
  let ?TS = "tiles_from (x + off) off (Suc n)"
  let ?TS' = "tiles_from (x + off + off) off n"
  let ?C = "IsDriveThroughRoadStopContinuation"
  have bx: "b + of_nat (Suc j) * off = x" by (simp add: b)
  have split: "tiles_from b off (Suc j + 1 + Suc n) = ?TN @ x # ?TS"
  proof -
    have "tiles_from b off (Suc j + Suc (Suc n)) = ?TN @ tiles_from (b + of_nat (Suc j) * off) off (Suc (Suc n))"
      by (rule tiles_from_append)
    then have "tiles_from b off (Suc j + Suc (Suc n)) = ?TN @ tiles_from x off (Suc (Suc n))"
      unfolding bx .
    then show ?thesis by (simp add: tiles_from.simps(2)[of x])
  qed
  have TS: "?TS = (x + off) # ?TS'" by (simp add: tiles_from.simps(2))
  have e: "b + of_nat (Suc j + 1 + Suc n) * off = x + off + of_nat (Suc n) * off"
    by (simp add: b algebra_simps)
  have "\<not> ?C w x (b + of_nat (Suc j + 1 + Suc n) * off)"
    unfolding e by (rule run(3))
  with run(1) have "distinct (tiles_from b off (Suc j + 1 + Suc n))"
    by (rule tiles_from_distinct)
  then have dist: "distinct ?TN" "distinct ?TS" "x \<notin> set ?TN" "x \<notin> set ?TS" "set ?TN \<inter> set ?TS = {}"
    unfolding split by auto
  from run(1) have cont: "list_all (?C w x) ?TN" "?C w x x" "list_all (?C w x) ?TS"
    unfolding split by simp_all
  have cS: "?C w x (x + off)" and contS': "list_all (?C w x) ?TS'"
    using cont(3) unfolding TS by simp_all
  have gS: "GetByTile w (x + off) rst = Inr s" and stS': "stops_at w rst ?TS' idsS"
    using stops(2) unfolding TS by (simp_all add: stops_at_Cons)
  \<comment> \<open>the northern neighbour is the last stop of the northern part\<close>
  have lenN: "length idsN = Suc j" using stops_at_length[OF stops(1)] by simp
  have "?TN ! j = b + of_nat j * off" by (rule tiles_from_nth) simp
  also have "\<dots> = x - off" by (simp add: b algebra_simps)
  finally have lastN: "?TN ! j = x - off" .
  have inN: "x - off \<in> set ?TN"
    using lastN by (metis length_tiles_from lessI nth_mem)
  have cN: "?C w x (x - off)"
    using cont(1) inN by (simp add: list_all_iff)
  have gN: "GetByTile w (x - off) rst = Inr (idsN ! j)"
    using stops_at_nth[OF stops(1), of j] lastN by simp
  have nN: "neighbour w (xy rs) (GetRoadStopType w (xy rs)) (xy rs - south_offset w (xy rs)) = Inr (Some (idsN ! j))"
    unfolding x by (rule neighbour_SomeI[OF cN gN])
  have nS: "neighbour w (xy rs) (GetRoadStopType w (xy rs)) (xy rs + south_offset w (xy rs)) = Inr (Some s)"
    unfolding x by (rule neighbour_SomeI[OF cS gS])
  \<comment> \<open>the stops are distinct\<close>
  have dids: "distinct (s # idsS)" using stops(2) dist(2) by (rule stops_at_distinct)
  have didN: "distinct idsN" using stops(1) dist(1) by (rule stops_at_distinct)
  have tS: "this \<notin> set (s # idsS)"
    using stops(2) ths(1) by (rule stops_at_not_in) (simp only: x dist not_False_eq_True)
  have tN: "this \<notin> set idsN"
    using stops(1) ths(1) by (rule stops_at_not_in) (simp only: x dist not_False_eq_True)
  have disj: "i \<notin> set (s # idsS)" if "i \<in> set idsN" for i
  proof -
    from stops_at_set_xy[OF stops(1) that] obtain r where "road_stop w i = Some r" "xy r \<in> set ?TN"
      by blast
    with dist(5) show ?thesis
      by (intro stops_at_not_in[OF stops(2)]) auto
  qed
  have hdN: "hd idsN \<in> set idsN" using lenN by (cases idsN) auto
  have hd0: "hd idsN = idsN ! 0" using lenN by (cases idsN) auto
  have "?TN ! 0 = b" by (simp add: tiles_from_nth)
  with stops_at_xy[OF stops(1), of 0] base(1) hd0 have xb: "xy rb = b" by simp
  \<comment> \<open>the states of the split\<close>
  define w1 where "w1 = DoClearSquare x w"
  define new where "new = length (platforms w)"
  define w3 where "w3 = rs_update s (platform_update (\<lambda>_. Some new))
     ((rs_update s (status_update (\<lambda>x. SetBit x RSSFB_BASE_ENTRY)) w1)\<lparr>platforms := platforms w @ [Some Platform_new]\<rparr>)"
  have sm3: "same_map w1 w3"
    by (auto simp: w3_def same_map_def option.map_comp comp_def)
  have C1: "?C w1 a c = (c \<noteq> x \<and> ?C w x c)" if "?C w x a" for a c
    using IsCont_trans[OF that] by (simp add: w1_def IsCont_DoClearSquare)
  from GetByTile_Inr[OF gS] obtain r_s where r_s: "road_stop w s = Some r_s" "xy r_s = x + off"
    by blast
  have ps3: "platform_of w3 s = Some new"
    using r_s by (simp add: w3_def platform_of_def w1_def)
  define w4 where "w4 = repoint idsS (Some new) w3"
  have sm4: "same_map w1 w4"
    using sm3 by (auto intro: same_map_trans simp: w4_def)
  have south: "ClearDriveThrough_south (x + off) rst off s (x + off + off) w3 = Some (Inr w4)"
    unfolding w4_def ps3[symmetric]
  proof (rule ClearDriveThrough_south_run)
    have "x \<notin> set ?TS'" using dist(4) unfolding TS by simp
    then show "list_all (?C w3 (x + off)) ?TS'"
      using contS' by (auto simp: same_map_IsCont[OF sm3] C1[OF cS] list_all_iff)
    have e3: "x + off + off + of_nat n * off = x + off + of_nat (Suc n) * off"
      by (simp add: algebra_simps)
    show "\<not> ?C w3 (x + off) (x + off + off + of_nat n * off)"
      unfolding e3 using run(3) by (simp add: same_map_IsCont[OF sm3] C1[OF cS])
    show "stops_at w3 rst ?TS' idsS"
      using stS' by (simp add: same_map_stops_at[OF sm3] w1_def)
    show "distinct idsS" "s \<notin> set idsS" using dids by simp_all
  qed
  have north: "ClearDriveThrough_north w4 (x + off) rst off (x - off) (idsN ! j) = Some (Inr (hd idsN))"
  proof -
    have rv: "rev ?TN = tiles_from (x - off) (- off) (Suc j)"
      using tiles_from_rev[of b off "Suc j"] unfolding bx .
    have "ClearDriveThrough_north w4 (x + off) rst off (x - off) (idsN ! j) =
        Some (Inr (last ((idsN ! j) # rev idsN)))"
    proof (rule ClearDriveThrough_north_run)
      show "list_all (?C w4 (x + off)) (tiles_from (x - off) (- off) (Suc j))"
        unfolding rv[symmetric] using cont(1) dist(3)
        by (auto simp: same_map_IsCont[OF sm4] C1[OF cS] list_all_iff)
      have e4: "x - off + of_nat (Suc j) * (- off) = b - off"
        by (simp add: b algebra_simps)
      show "\<not> ?C w4 (x + off) (x - off + of_nat (Suc j) * (- off))"
        unfolding e4 using run(2) by (simp add: same_map_IsCont[OF sm4] C1[OF cS])
      show "stops_at w4 rst (tiles_from (x - off) (- off) (Suc j)) (rev idsN)"
        unfolding rv[symmetric] using stops_at_rev[OF stops(1)]
        by (simp add: same_map_stops_at[OF sm4] w1_def)
    qed
    moreover have "last ((idsN ! j) # rev idsN) = hd idsN"
      using lenN by (cases idsN) (auto simp: last_rev)
    ultimately show ?thesis by simp
  qed
  \<comment> \<open>the two rebuilds\<close>
  define PS where "PS = \<lparr>plat_length = TILE_SIZE * int (Suc n),
       occupied_east = occupancy w ?TS (Rebuild_dir_east w (x + off)),
       occupied_west = occupancy w ?TS (ReverseDir (Rebuild_dir_east w (x + off)))\<rparr>"
  define PNo where "PNo = \<lparr>plat_length = TILE_SIZE * int (Suc j),
       occupied_east = occupancy w ?TN (Rebuild_dir_east w b),
       occupied_west = occupancy w ?TN (ReverseDir (Rebuild_dir_east w b))\<rparr>"
  have acc4: "Rebuild_offset w4 = Rebuild_offset w" "Rebuild_dir_east w4 = Rebuild_dir_east w"
    "occupancy w4 = occupancy w" "directions_ok w4 = directions_ok w"
    using same_map_accessors[OF sm4] by (simp_all add: w1_def)
  have rs4: "road_stop w4 s = Some (r_s\<lparr>status := SetBit (status r_s) RSSFB_BASE_ENTRY, platform := Some new\<rparr>)"
    using dids r_s by (cases r_s) (simp add: w4_def repoint_road_stop w3_def w1_def)
  have pl4: "platforms w4 = platforms w @ [Some Platform_new]"
    by (simp add: w4_def w3_def)
  have g4: "plat_get w4 new = Some Platform_new"
    by (simp add: plat_get_def pl4 new_def)
  define w5 where "w5 = w4\<lparr>platforms := platforms w @ [Some PS]\<rparr>"
  have rebS: "RoadStop_Rebuild s w4 =
     (if directions_ok w ?TS (Rebuild_dir_east w (x + off)) then Some (Inr w5) else Some (Inl AssertionFailed))"
  proof -
    have 1: "list_all (?C w4 (x + off)) (tiles_from (x + off) (Rebuild_offset w4 (x + off)) (Suc n))"
      using cont(3) dist(4) by (auto simp: acc4 reb same_map_IsCont[OF sm4] C1[OF cS] list_all_iff)
    have 2: "\<not> ?C w4 (x + off) (x + off + of_nat (Suc n) * Rebuild_offset w4 (x + off))"
      unfolding acc4 reb using run(3) by (simp add: same_map_IsCont[OF sm4] C1[OF cS])
    have "platform (r_s\<lparr>status := SetBit (status r_s) RSSFB_BASE_ENTRY, platform := Some new\<rparr>) = Some new"
      "xy (r_s\<lparr>status := SetBit (status r_s) RSSFB_BASE_ENTRY, platform := Some new\<rparr>) = x + off"
      using r_s by simp_all
    from RoadStop_Rebuild_run[OF rs4 this(1) g4 this(2) 1 2] show ?thesis
      unfolding acc4 reb pl4 by (simp add: w5_def PS_def new_def)
  qed
  have sm5: "same_map w1 w5"
    using sm4 by (simp add: w5_def same_map_def)
  have acc5: "Rebuild_offset w5 = Rebuild_offset w" "Rebuild_dir_east w5 = Rebuild_dir_east w"
    "occupancy w5 = occupancy w" "directions_ok w5 = directions_ok w"
    using same_map_accessors[OF sm5] by (simp_all add: w1_def)
  have hS: "hd idsN \<notin> set (s # idsS)" using disj[OF hdN] .
  have rs5: "road_stop w5 (hd idsN) = Some rb"
    using hS base(1) by (simp add: w5_def w4_def repoint_road_stop w3_def w1_def)
  have lp: "p < length (platforms w)" using base(4) by (rule plat_get_less)
  have g5: "plat_get w5 p = Some P"
    using lp plat_get_nth[OF base(4)] by (simp add: w5_def plat_get_platforms nth_append)
  define w6 where "w6 = w5\<lparr>platforms := (platforms w @ [Some PS])[p := Some PNo]\<rparr>"
  have rebN: "RoadStop_Rebuild (hd idsN) w5 =
     (if directions_ok w ?TN (Rebuild_dir_east w b) then Some (Inr w6) else Some (Inl AssertionFailed))"
  proof -
    have cb: "?C w x b" using cont(1) by (simp add: tiles_from.simps(2))
    have 1: "list_all (?C w5 b) (tiles_from b (Rebuild_offset w5 b) (Suc j))"
      using cont(1) dist(3) by (auto simp: acc5 reb same_map_IsCont[OF sm5] C1[OF cb] list_all_iff)
    have 2: "\<not> ?C w5 b (b + of_nat (Suc j) * Rebuild_offset w5 b)"
      unfolding acc5 reb bx by (simp add: same_map_IsCont[OF sm5] C1[OF cb])
    have pl5: "platforms w5 = platforms w @ [Some PS]" by (simp add: w5_def)
    from RoadStop_Rebuild_run[OF rs5 base(3) g5 xb 1 2] show ?thesis
      unfolding acc5 reb pl5 by (simp add: w6_def PNo_def)
  qed
  have split_res: "ClearDriveThrough_split rst off (idsN ! j) (x - off) s (x + off) w1 =
     (if directions_ok w ?TS (Rebuild_dir_east w (x + off)) \<and> directions_ok w ?TN (Rebuild_dir_east w b)
      then Some (Inr w6) else Some (Inl AssertionFailed))"
  proof -
    have w3': "rs_update s (platform_update (\<lambda>_. Some (fst (plat_alloc
          (rs_update s (status_update (\<lambda>x. SetBit x RSSFB_BASE_ENTRY)) w1)))))
        (snd (plat_alloc (rs_update s (status_update (\<lambda>x. SetBit x RSSFB_BASE_ENTRY)) w1))) = w3"
      by (simp add: w3_def plat_alloc_def new_def w1_def)
    show ?thesis
      unfolding ClearDriveThrough_split_def Let_def w3' south bindR_simps north rebS
      by (simp add: rebN rs5 base(2))
  qed
  have w6: "w6 = (repoint (s # idsS) (Some new)
               (rs_update s (status_update (\<lambda>x. SetBit x RSSFB_BASE_ENTRY)) w1))
             \<lparr>platforms := (platforms w @ [Some PS])[p := Some PNo]\<rparr>"
    by (simp add: w6_def w5_def w4_def w3_def repoint_Cons repoint_platforms_commute
        rs_update_platforms_commute)
  show ?thesis
    unfolding ClearDriveThrough_okI[OF ths nN nS] x w1_def[symmetric]
    by (simp add: ClearDriveThrough_cases_def split_res w6 PS_def PNo_def new_def ok_def)
qed


subsection \<open>Continuation as sameness of kind\<close>




subsection \<open>Facts about a run\<close>








subsection \<open>The states left by the other cases\<close>




lemma clear_alone:
  assumes "road_stop w this = Some rs" and "platform rs = Some p" and "plat_get w p = Some pl"
    and "neighbour w (xy rs) (GetRoadStopType w (xy rs)) (xy rs - south_offset w (xy rs)) = Inr None"
    and "neighbour w (xy rs) (GetRoadStopType w (xy rs)) (xy rs + south_offset w (xy rs)) = Inr None"
  shows "ClearDriveThrough this w =
     Some (Inr (w\<lparr>tiles := (tiles w)(xy rs := (tiles w (xy rs))\<lparr>tile_is_station := False\<rparr>),
                  road_stop := (road_stop w)(this \<mapsto>
                     rs\<lparr>status := ClrBit (status rs) RSSFB_BASE_ENTRY, platform := None\<rparr>),
                  platforms := (platforms w)[p := None]\<rparr>))"
proof -
  define w1 where "w1 = DoClearSquare (xy rs) w"
  have c: "ClearDriveThrough_cases this (GetRoadStopType w (xy rs)) (south_offset w (xy rs))
       None (xy rs - south_offset w (xy rs)) None (xy rs + south_offset w (xy rs)) w1
       = Some (Inr (w1\<lparr>platforms := (platforms w)[p := None]\<rparr>))"
    using assms(1,2,3)
    by (simp add: ClearDriveThrough_cases_def w1_def plat_delete_Some lift_def platform_of_def)
  have "ClearDriveThrough this w = ok (rs_update this (platform_update (\<lambda>_. None))
                   (rs_update this (status_update (\<lambda>x. ClrBit x RSSFB_BASE_ENTRY))
                      (w1\<lparr>platforms := (platforms w)[p := None]\<rparr>)))"
    using assms(1,2,4,5) c unfolding w1_def
    by (auto simp add: ClearDriveThrough_def Let_def)
  also have "\<dots> = Some (Inr (w\<lparr>tiles := (tiles w)(xy rs := (tiles w (xy rs))\<lparr>tile_is_station := False\<rparr>),
                  road_stop := (road_stop w)(this \<mapsto>
                     rs\<lparr>status := ClrBit (status rs) RSSFB_BASE_ENTRY, platform := None\<rparr>),
                  platforms := (platforms w)[p := None]\<rparr>))"
    using assms(1) by (cases rs) (auto intro!: world_eqI simp: ok_def w1_def DoClearSquare_def rs_update_def)
  finally show ?thesis .
qed

subsection \<open>ClearDriveThrough returns, and what it leaves of the detached stop\<close>

lemma clear_post:
  assumes "ClearDriveThrough this w = Some (Inr w')"
  shows "\<exists>r. road_stop w' this = Some r \<and> \<not> HasBit (status r) RSSFB_BASE_ENTRY \<and> platform r = None"
proof -
  from ClearDriveThrough_okD[OF assms] obtain rs rn rsth w2 where rs: "road_stop w this = Some rs"
    and br: "ClearDriveThrough_cases this (GetRoadStopType w (xy rs)) (south_offset w (xy rs))
        rn (xy rs - south_offset w (xy rs)) rsth (xy rs + south_offset w (xy rs))
        (DoClearSquare (xy rs) w) = Some (Inr w2)"
    and fin: "w' = rs_update this (platform_update (\<lambda>_. None))
                 (rs_update this (status_update (\<lambda>x. ClrBit x RSSFB_BASE_ENTRY)) w2)"
    by blast
  have "same_pool (DoClearSquare (xy rs) w) w2"
    using br by (rule ClearDriveThrough_cases_pool)
  then have "road_stop w2 this \<noteq> None"
    using rs by (simp add: same_pool_def)
  then obtain r2 where "road_stop w2 this = Some r2" by auto
  then show ?thesis
    by (simp add: fin HasBit_def ClrBit_def bit_unset_bit_iff)
qed


lemma clear_split_returns:
  assumes ths: "road_stop w this = Some rs"
    and x: "xy rs = x" "south_offset w x = off" "GetRoadStopType w x = rst"
    and ac: "0 < a" "0 < c"
    and b: "b = x - of_nat a * off"
    and run: "list_all (IsDriveThroughRoadStopContinuation w x) (tiles_from b off (a + 1 + c))"
      "\<not> IsDriveThroughRoadStopContinuation w x (b - off)"
      "\<not> IsDriveThroughRoadStopContinuation w x (x + of_nat (Suc c) * off)"
    and stops: "stops_at w rst (tiles_from b off (a + 1 + c)) (idsN @ this # idsS)" "length idsN = a"
    and plat: "list_all (\<lambda>i. platform_of w i = Some p) (idsN @ this # idsS)" "plat_get w p = Some P"
    and base: "road_stop w (hd idsN) = Some rb" "HasBit (status rb) RSSFB_BASE_ENTRY"
    and reb: "Rebuild_offset w b = off" "Rebuild_offset w (x + off) = off"
    and dirs: "directions_ok w (tiles_from b off a) (Rebuild_dir_east w b)"
      "directions_ok w (tiles_from (x + off) off c) (Rebuild_dir_east w (x + off))"
  shows "\<exists>w'. ClearDriveThrough this w = Some (Inr w')"
proof -
  let ?C = "IsDriveThroughRoadStopContinuation"
  from ac obtain j n where j: "a = Suc j" and n: "c = Suc n"
    by (cases a; cases c) auto
  let ?TN = "tiles_from b off (Suc j)"
  let ?TS = "tiles_from (x + off) off (Suc n)"
  have bx: "b + of_nat (Suc j) * off = x" by (simp add: b j)
  have split: "tiles_from b off (a + 1 + c) = ?TN @ x # ?TS"
  proof -
    have "tiles_from b off (Suc j + Suc (Suc n)) = ?TN @ tiles_from (b + of_nat (Suc j) * off) off (Suc (Suc n))"
      by (rule tiles_from_append)
    then have "tiles_from b off (Suc j + Suc (Suc n)) = ?TN @ tiles_from x off (Suc (Suc n))"
      unfolding bx .
    then show ?thesis by (simp add: tiles_from.simps(2)[of x] j n)
  qed
  have e: "b + of_nat (a + 1 + c) * off = x + of_nat (Suc c) * off"
    by (simp add: b algebra_simps)
  have "\<not> ?C w x (b + of_nat (a + 1 + c) * off)"
    unfolding e by (rule run(3))
  with run(1) have "distinct (tiles_from b off (a + 1 + c))"
    by (rule tiles_from_distinct)
  then have dist: "distinct ?TN" "distinct ?TS" "x \<notin> set ?TN" "x \<notin> set ?TS" "set ?TN \<inter> set ?TS = {}"
    unfolding split by auto
  from run(1) have cont: "list_all (?C w x) ?TN" "?C w x x" "list_all (?C w x) ?TS"
    unfolding split by simp_all
  have lenN: "length idsN = length ?TN" using stops(2) j by simp
  from stops(1) have st: "stops_at w rst ?TN idsN" "stops_at w rst (x # ?TS) (this # idsS)"
    unfolding split using lenN by (auto intro: stops_at_append_length)
  then have stS: "stops_at w rst ?TS idsS"
    by (simp add: stops_at_Cons)
  from stops_at_length[OF stS] obtain s ids where idsS: "idsS = s # ids"
    by (cases idsS) auto
  have hdN: "hd idsN \<in> set idsN" using lenN by (cases idsN) auto
  have "platform_of w (hd idsN) = Some p"
    using plat(1) hdN by (simp add: list_all_iff)
  then have pb: "platform rb = Some p"
    using base(1) by (simp add: platform_of_def)
  have "platform_of w this = Some p"
    using plat(1) by simp
  then have pt: "platform rs \<noteq> None"
    using ths by (simp add: platform_of_def)
  have e3: "x + off + of_nat (Suc n) * off = x + of_nat (Suc c) * off"
    by (simp add: n algebra_simps)
  have end3: "\<not> ?C w x (x + off + of_nat (Suc n) * off)"
    unfolding e3 by (rule run(3))
  define new where "new = length (platforms w)"
  define PS where "PS = \<lparr>plat_length = TILE_SIZE * int (Suc n),
       occupied_east = occupancy w ?TS (Rebuild_dir_east w (x + off)),
       occupied_west = occupancy w ?TS (ReverseDir (Rebuild_dir_east w (x + off)))\<rparr>"
  define PN where "PN = \<lparr>plat_length = TILE_SIZE * int (Suc j),
       occupied_east = occupancy w ?TN (Rebuild_dir_east w b),
       occupied_west = occupancy w ?TN (ReverseDir (Rebuild_dir_east w b))\<rparr>"
  define w6 where "w6 = (repoint (s # ids) (Some new)
               (rs_update s (status_update (\<lambda>x. SetBit x RSSFB_BASE_ENTRY)) (DoClearSquare x w)))
             \<lparr>platforms := (platforms w @ [Some PS])[p := Some PN]\<rparr>"
  define w' where "w' = rs_update this (platform_update (\<lambda>_. None))
          (rs_update this (status_update (\<lambda>x. ClrBit x RSSFB_BASE_ENTRY)) w6)"
  have b': "b = x - of_nat (Suc j) * off" using b j by simp
  have run1': "list_all (?C w x) (tiles_from b off (Suc j + 1 + Suc n))"
    using run(1) by (simp add: j n)
  have st2: "stops_at w rst ?TS (s # ids)" using stS idsS by simp
  have dirs': "directions_ok w ?TS (Rebuild_dir_east w (x + off))"
    "directions_ok w ?TN (Rebuild_dir_east w b)"
    using dirs by (simp_all add: j n)
  have res: "ClearDriveThrough this w = Some (Inr w')"
    unfolding ClearDriveThrough_split_run[OF ths pt x b' run1' run(2) end3 st(1) st2 base pb plat(2) reb]
      w'_def w6_def PS_def PN_def new_def
    using dirs' by simp
  from res show ?thesis by blast
qed

subsection \<open>ClearDriveThrough in the middle of a run\<close>

text \<open>
  C1: let the stop \<open>this\<close> be on the tile \<open>x\<close> of a run of \<open>a + 1 + c\<close> tiles that share one
  platform \<open>p\<close>, with \<open>a > 0\<close> tiles to its north and \<open>c > 0\<close> tiles to its south (so
  \<open>x\<close> is the \<open>k\<close>-th tile of a run of \<open>L\<close> tiles with \<open>k = a + 1\<close>, \<open>1 < k < L\<close>), the
  first stop of the run being the base. If \<^verbatim>\<open>Platform::Rebuild\<close> steps along the run
  as the stop's axis says, and every counted vehicle on the two parts travels along the axis
  (otherwise the assertion of \<^verbatim>\<open>Rebuild\<close> fails), then \<^verbatim>\<open>ClearDriveThrough\<close> returns a
  state in which the \<open>a\<close> northern tiles and the \<open>c\<close> southern tiles are two separate runs
  (each ends at the cleared tile \<open>x\<close>), the northern stops still reference \<open>p\<close>, the
  southern stops reference a brand-new, different platform, each of the two has its base bit
  on its first stop, and each platform holds exactly what \<^verbatim>\<open>Rebuild\<close> computes from
  scratch for its run in the new state, with length \<open>TILE_SIZE\<close> times \<open>a\<close> and \<open>c\<close>.
\<close>

theorem ClearDriveThrough_splits_run:
  assumes ths: "road_stop w this = Some rs"
    and x: "xy rs = x" "south_offset w x = off" "GetRoadStopType w x = rst"
    and ac: "0 < a" "0 < c"
    and b: "b = x - of_nat a * off"
    and run: "list_all (IsDriveThroughRoadStopContinuation w x) (tiles_from b off (a + 1 + c))"
      "\<not> IsDriveThroughRoadStopContinuation w x (b - off)"
      "\<not> IsDriveThroughRoadStopContinuation w x (x + of_nat (Suc c) * off)"
    and stops: "stops_at w rst (tiles_from b off (a + 1 + c)) (idsN @ this # idsS)" "length idsN = a"
    and plat: "list_all (\<lambda>i. platform_of w i = Some p) (idsN @ this # idsS)" "plat_get w p = Some P"
    and base: "road_stop w (hd idsN) = Some rb" "HasBit (status rb) RSSFB_BASE_ENTRY"
    and reb: "Rebuild_offset w b = off" "Rebuild_offset w (x + off) = off"
    and dirs: "directions_ok w (tiles_from b off a) (Rebuild_dir_east w b)"
      "directions_ok w (tiles_from (x + off) off c) (Rebuild_dir_east w (x + off))"
  shows "\<exists>w' PN PS. ClearDriveThrough this w = Some (Inr w') \<and>
     list_all (IsDriveThroughRoadStopContinuation w' b) (tiles_from b off a) \<and>
     \<not> IsDriveThroughRoadStopContinuation w' b (b - off) \<and>
     \<not> IsDriveThroughRoadStopContinuation w' b (b + of_nat a * off) \<and>
     list_all (IsDriveThroughRoadStopContinuation w' (x + off)) (tiles_from (x + off) off c) \<and>
     \<not> IsDriveThroughRoadStopContinuation w' (x + off) (x + off - off) \<and>
     \<not> IsDriveThroughRoadStopContinuation w' (x + off) (x + off + of_nat c * off) \<and>
     stops_at w' rst (tiles_from b off a) idsN \<and>
     stops_at w' rst (tiles_from (x + off) off c) idsS \<and>
     list_all (\<lambda>i. platform_of w' i = Some p) idsN \<and>
     list_all (\<lambda>i. platform_of w' i = Some (length (platforms w))) idsS \<and>
     p \<noteq> length (platforms w) \<and>
     plat_get w' p = Some PN \<and> Platform_Rebuild w' b = Some (Inr PN) \<and>
     plat_length PN = TILE_SIZE * int a \<and>
     plat_get w' (length (platforms w)) = Some PS \<and> Platform_Rebuild w' (x + off) = Some (Inr PS) \<and>
     plat_length PS = TILE_SIZE * int c \<and>
     (\<exists>r. road_stop w' (hd idsN) = Some r \<and> HasBit (status r) RSSFB_BASE_ENTRY) \<and>
     (\<exists>r. road_stop w' (hd idsS) = Some r \<and> HasBit (status r) RSSFB_BASE_ENTRY)"
proof -
  let ?C = "IsDriveThroughRoadStopContinuation"
  from ac obtain j n where j: "a = Suc j" and n: "c = Suc n"
    by (cases a; cases c) auto
  let ?TN = "tiles_from b off (Suc j)"
  let ?TS = "tiles_from (x + off) off (Suc n)"
  have bx: "b + of_nat (Suc j) * off = x" by (simp add: b j)
  have split: "tiles_from b off (a + 1 + c) = ?TN @ x # ?TS"
  proof -
    have "tiles_from b off (Suc j + Suc (Suc n)) = ?TN @ tiles_from (b + of_nat (Suc j) * off) off (Suc (Suc n))"
      by (rule tiles_from_append)
    then have "tiles_from b off (Suc j + Suc (Suc n)) = ?TN @ tiles_from x off (Suc (Suc n))"
      unfolding bx .
    then show ?thesis by (simp add: tiles_from.simps(2)[of x] j n)
  qed
  have e: "b + of_nat (a + 1 + c) * off = x + of_nat (Suc c) * off"
    by (simp add: b algebra_simps)
  have "\<not> ?C w x (b + of_nat (a + 1 + c) * off)"
    unfolding e by (rule run(3))
  with run(1) have "distinct (tiles_from b off (a + 1 + c))"
    by (rule tiles_from_distinct)
  then have dist: "distinct ?TN" "distinct ?TS" "x \<notin> set ?TN" "x \<notin> set ?TS" "set ?TN \<inter> set ?TS = {}"
    unfolding split by auto
  from run(1) have cont: "list_all (?C w x) ?TN" "?C w x x" "list_all (?C w x) ?TS"
    unfolding split by simp_all
  have lenN: "length idsN = length ?TN" using stops(2) j by simp
  from stops(1) have st: "stops_at w rst ?TN idsN" "stops_at w rst (x # ?TS) (this # idsS)"
    unfolding split using lenN by (auto intro: stops_at_append_length)
  then have stS: "stops_at w rst ?TS idsS"
    by (simp add: stops_at_Cons)
  from stops_at_length[OF stS] obtain s ids where idsS: "idsS = s # ids"
    by (cases idsS) auto
  have hdN: "hd idsN \<in> set idsN" using lenN by (cases idsN) auto
  have "platform_of w (hd idsN) = Some p"
    using plat(1) hdN by (simp add: list_all_iff)
  then have pb: "platform rb = Some p"
    using base(1) by (simp add: platform_of_def)
  have "platform_of w this = Some p"
    using plat(1) by simp
  then have pt: "platform rs \<noteq> None"
    using ths by (simp add: platform_of_def)
  have e3: "x + off + of_nat (Suc n) * off = x + of_nat (Suc c) * off"
    by (simp add: n algebra_simps)
  have end3: "\<not> ?C w x (x + off + of_nat (Suc n) * off)"
    unfolding e3 by (rule run(3))
  define new where "new = length (platforms w)"
  define PS where "PS = \<lparr>plat_length = TILE_SIZE * int (Suc n),
       occupied_east = occupancy w ?TS (Rebuild_dir_east w (x + off)),
       occupied_west = occupancy w ?TS (ReverseDir (Rebuild_dir_east w (x + off)))\<rparr>"
  define PN where "PN = \<lparr>plat_length = TILE_SIZE * int (Suc j),
       occupied_east = occupancy w ?TN (Rebuild_dir_east w b),
       occupied_west = occupancy w ?TN (ReverseDir (Rebuild_dir_east w b))\<rparr>"
  define w6 where "w6 = (repoint (s # ids) (Some new)
               (rs_update s (status_update (\<lambda>x. SetBit x RSSFB_BASE_ENTRY)) (DoClearSquare x w)))
             \<lparr>platforms := (platforms w @ [Some PS])[p := Some PN]\<rparr>"
  define w' where "w' = rs_update this (platform_update (\<lambda>_. None))
          (rs_update this (status_update (\<lambda>x. ClrBit x RSSFB_BASE_ENTRY)) w6)"
  have b': "b = x - of_nat (Suc j) * off" using b j by simp
  have run1': "list_all (?C w x) (tiles_from b off (Suc j + 1 + Suc n))"
    using run(1) by (simp add: j n)
  have st2: "stops_at w rst ?TS (s # ids)" using stS idsS by simp
  have dirs': "directions_ok w ?TS (Rebuild_dir_east w (x + off))"
    "directions_ok w ?TN (Rebuild_dir_east w b)"
    using dirs by (simp_all add: j n)
  have res: "ClearDriveThrough this w = Some (Inr w')"
    unfolding ClearDriveThrough_split_run[OF ths pt x b' run1' run(2) end3 st(1) st2 base pb plat(2) reb]
      w'_def w6_def PS_def PN_def new_def
    using dirs' by simp
  have sm: "same_map (DoClearSquare x w) w'"
    by (auto simp: w'_def w6_def same_map_def repoint_road_stop option.map_comp comp_def)
  have C1: "?C w' a c = (c \<noteq> x \<and> ?C w x c)" if "?C w x a" for a c
    using IsCont_trans[OF that] by (simp add: same_map_IsCont[OF sm] IsCont_DoClearSquare)
  have cb: "?C w x b" using cont(1) by (simp add: tiles_from.simps(2))
  have cS: "?C w x (x + off)" using cont(3) by (simp add: tiles_from.simps(2))
  have acc: "Rebuild_offset w' = Rebuild_offset w" "Rebuild_dir_east w' = Rebuild_dir_east w"
    "occupancy w' = occupancy w" "directions_ok w' = directions_ok w" "stops_at w' = stops_at w"
    using same_map_accessors[OF sm] same_map_stops_at[OF sm] by simp_all
  have rN: "list_all (?C w' b) ?TN" "\<not> ?C w' b (b - off)" "\<not> ?C w' b (b + of_nat (Suc j) * off)"
    using cont(1) dist(3) run(2) unfolding bx by (auto simp: C1[OF cb] list_all_iff)
  have rS: "list_all (?C w' (x + off)) ?TS" "\<not> ?C w' (x + off) (x + off - off)"
    "\<not> ?C w' (x + off) (x + off + of_nat (Suc n) * off)"
    using cont(3) dist(4) end3 by (auto simp: C1[OF cS] list_all_iff)
  have lp: "p < length (platforms w)" using plat(2) by (rule plat_get_less)
  have tS: "this \<notin> set (s # ids)"
    using stS ths unfolding idsS by (rule stops_at_not_in) (simp only: x dist not_False_eq_True)
  have tN: "this \<notin> set idsN"
    using st(1) ths by (rule stops_at_not_in) (simp only: x dist not_False_eq_True)
  have disj: "i \<notin> set (s # ids)" if "i \<in> set idsN" for i
  proof -
    from stops_at_set_xy[OF st(1) that] obtain r where "road_stop w i = Some r" "xy r \<in> set ?TN"
      by blast
    with dist(5) show ?thesis
      using stS unfolding idsS by (intro stops_at_not_in[where r = r and ts = "?TS"]) auto
  qed
  have pN: "list_all (\<lambda>i. platform_of w' i = Some p) idsN"
  proof -
    have "platform_of w' i = Some p" if "i \<in> set idsN" for i
    proof -
      from disj[OF that] tN that have "i \<notin> set (s # ids)" "i \<noteq> this" "i \<noteq> s" by auto
      moreover have "platform_of w i = Some p" using plat(1) that by (simp add: list_all_iff)
      ultimately show ?thesis
        by (simp add: w'_def w6_def platform_of_repoint platform_of_rs_update_platform)
    qed
    then show ?thesis by (simp add: list_all_iff)
  qed
  have pS: "list_all (\<lambda>i. platform_of w' i = Some new) idsS"
  proof -
    have "platform_of w' i = Some new" if "i \<in> set idsS" for i
    proof -
      from stops_at_set_xy[OF stS that] have "road_stop w i \<noteq> None" by auto
      moreover have "i \<noteq> this" using tS that idsS by auto
      ultimately show ?thesis
        using that by (auto simp: w'_def w6_def platform_of_repoint platform_of_rs_update_platform idsS)
    qed
    then show ?thesis by (simp add: list_all_iff)
  qed
  have gN: "plat_get w' p = Some PN"
    using lp by (simp add: w'_def w6_def plat_get_platforms)
  have gS: "plat_get w' new = Some PS"
    using lp by (simp add: w'_def w6_def plat_get_platforms new_def nth_append)
  have RN: "Platform_Rebuild w' b = Some (Inr PN)"
    using Platform_Rebuild_run[of w' b "Suc j"] rN dirs(1)
    by (simp add: acc reb PN_def j)
  have RS: "Platform_Rebuild w' (x + off) = Some (Inr PS)"
    using Platform_Rebuild_run[of w' "x + off" "Suc n"] rS dirs(2)
    by (simp add: acc reb PS_def n)
  have bN: "\<exists>r. road_stop w' (hd idsN) = Some r \<and> HasBit (status r) RSSFB_BASE_ENTRY"
    using disj[OF hdN] tN hdN base by (auto simp: w'_def w6_def repoint_road_stop)
  from stops_at_set_xy[OF stS, of s] obtain r_s where "road_stop w s = Some r_s" by (auto simp: idsS)
  then have bS: "\<exists>r. road_stop w' (hd idsS) = Some r \<and> HasBit (status r) RSSFB_BASE_ENTRY"
    using tS by (auto simp: w'_def w6_def repoint_road_stop idsS)
  show ?thesis
    using res rN rS st(1) stS pN pS lp gN gS RN RS bN bS
    by (intro exI[of _ w'] exI[of _ PN] exI[of _ PS])
      (simp add: acc j n new_def PN_def PS_def)
qed

theorem ClearDriveThrough_splits_run_witness:
  "\<exists>w' PN PS. ClearDriveThrough 1 ex_three = Some (Inr w') \<and>
     platform_of w' 0 = Some 0 \<and> platform_of w' 2 = Some 1 \<and>
     plat_get w' 0 = Some PN \<and> Platform_Rebuild w' 10 = Some (Inr PN) \<and> plat_length PN = 16 \<and>
     plat_get w' 1 = Some PS \<and> Platform_Rebuild w' 12 = Some (Inr PS) \<and> plat_length PS = 16"
proof -
  have ths: "road_stop ex_three 1 = Some (ex_stop 11 0 (Some 0))"
    by (simp add: ex_three_def ex_world_def)
  have x: "xy (ex_stop 11 0 (Some 0)) = 11" "south_offset ex_three 11 = 1"
    "GetRoadStopType ex_three 11 = ROADSTOP_BUS"
    by code_simp+
  have ac: "0 < (1::nat)" "0 < (1::nat)" by simp_all
  have b: "(10::TileIndex) = 11 - of_nat 1 * 1" by simp
  have run: "list_all (IsDriveThroughRoadStopContinuation ex_three 11) (tiles_from 10 1 (1 + 1 + 1))"
    "\<not> IsDriveThroughRoadStopContinuation ex_three 11 (10 - 1)"
    "\<not> IsDriveThroughRoadStopContinuation ex_three 11 (11 + of_nat (Suc 1) * 1)"
    by code_simp+
  have stops: "stops_at ex_three ROADSTOP_BUS (tiles_from 10 1 (1 + 1 + 1)) ([0] @ 1 # [2])"
    "length [0::nat] = 1"
    by code_simp+
  have plat: "list_all (\<lambda>i. platform_of ex_three i = Some 0) ([0] @ 1 # [2])"
    "plat_get ex_three 0 = Some \<lparr>plat_length = 48, occupied_east = 8, occupied_west = 8\<rparr>"
    by code_simp+
  have base: "road_stop ex_three (hd [0]) = Some (ex_stop 10 0x40 (Some 0))"
    "HasBit (status (ex_stop 10 0x40 (Some 0))) RSSFB_BASE_ENTRY"
    by (simp_all add: ex_three_def ex_world_def ex_stop_def HasBit_def RSSFB_BASE_ENTRY_def)
  have reb: "Rebuild_offset ex_three 10 = 1" "Rebuild_offset ex_three (11 + 1) = 1"
    by code_simp+
  have dirs: "directions_ok ex_three (tiles_from 10 1 1) (Rebuild_dir_east ex_three 10)"
    "directions_ok ex_three (tiles_from (11 + 1) 1 1) (Rebuild_dir_east ex_three (11 + 1))"
    by code_simp+
  have len: "length (platforms ex_three) = 1"
    by (simp add: ex_three_def ex_world_def)
  show ?thesis
    using ClearDriveThrough_splits_run[OF ths x ac b run stops plat base reb dirs]
    by (auto simp: len TILE_SIZE_def)
qed

subsection \<open>MakeDriveThrough between two runs\<close>

text \<open>
  C2: let the stop \<open>this\<close> be on the gap tile \<open>x\<close> between a run of \<open>m\<close> tiles to its north,
  whose stops share the platform \<open>pn\<close> of length \<open>TILE_SIZE\<close> times \<open>m\<close>, and a run of \<open>n\<close>
  tiles to its south, whose stops share another platform \<open>ps\<close>, all on the same axis of the
  same station (every one of the \<open>m + 1 + n\<close> tiles continues the stop on \<open>x\<close>, and the tiles
  before and after them do not). Then \<^verbatim>\<open>MakeDriveThrough\<close> returns; the map is unchanged,
  so the \<open>m + n + 1\<close> tiles are one run; every stop on it references the one platform
  \<open>pn\<close>, whose length is \<open>m + n + 1\<close> times \<open>TILE_SIZE\<close> and whose occupancies are the sums
  of those of the two prior platforms; the platform \<open>ps\<close> is deleted and no other platform
  is touched.
\<close>

theorem MakeDriveThrough_joins_runs:
  assumes ths: "road_stop w this = Some rs" "platform rs = None"
    and x: "xy rs = x" "south_offset w x = off" "GetRoadStopType w x = rst"
    and mn: "0 < m" "0 < n"
    and run: "list_all (IsDriveThroughRoadStopContinuation w x) (tiles_from (x - of_nat m * off) off (m + 1 + n))"
      "\<not> IsDriveThroughRoadStopContinuation w x (x - of_nat m * off - off)"
      "\<not> IsDriveThroughRoadStopContinuation w x (x + of_nat (Suc n) * off)"
    and stops: "stops_at w rst (tiles_from (x - of_nat m * off) off (m + 1 + n)) (idsN @ this # idsS)"
      "length idsN = m"
    and plats: "list_all (\<lambda>i. platform_of w i = Some pn) idsN"
      "list_all (\<lambda>i. platform_of w i = Some ps) idsS"
    and heap: "plat_get w pn = Some PN" "plat_length PN = TILE_SIZE * int m"
      "plat_get w ps = Some PS" "pn \<noteq> ps"
  shows "\<exists>w'. MakeDriveThrough this w = Some (Inr w') \<and> same_map w w' \<and>
     list_all (IsDriveThroughRoadStopContinuation w' x) (tiles_from (x - of_nat m * off) off (m + 1 + n)) \<and>
     \<not> IsDriveThroughRoadStopContinuation w' x (x - of_nat m * off - off) \<and>
     \<not> IsDriveThroughRoadStopContinuation w' x (x + of_nat (Suc n) * off) \<and>
     stops_at w' rst (tiles_from (x - of_nat m * off) off (m + 1 + n)) (idsN @ this # idsS) \<and>
     list_all (\<lambda>i. platform_of w' i = Some pn) (idsN @ this # idsS) \<and>
     plat_get w' pn = Some \<lparr>plat_length = TILE_SIZE * int (m + n + 1),
                             occupied_east = occupied_east PN + occupied_east PS,
                             occupied_west = occupied_west PN + occupied_west PS\<rparr> \<and>
     plat_get w' ps = None \<and>
     (\<forall>q. q \<noteq> pn \<and> q \<noteq> ps \<longrightarrow> plat_get w' q = plat_get w q)"
proof -
  let ?b = "x - of_nat m * off"
  let ?TN = "tiles_from ?b off m"
  let ?TS = "tiles_from (x + off) off n"
  have split: "tiles_from ?b off (m + 1 + n) = ?TN @ x # ?TS"
  proof -
    have "tiles_from ?b off (m + (1 + n)) = ?TN @ tiles_from (?b + of_nat m * off) off (Suc n)"
      by (simp only: tiles_from_append plus_1_eq_Suc)
    then show ?thesis by (simp add: add.assoc tiles_from.simps(2))
  qed
  have e: "?b + of_nat (m + 1 + n) * off = x + of_nat (Suc n) * off"
    by (simp add: algebra_simps)
  have "\<not> IsDriveThroughRoadStopContinuation w x (?b + of_nat (m + 1 + n) * off)"
    unfolding e by (rule run(3))
  with run(1) have "distinct (tiles_from ?b off (m + 1 + n))"
    by (rule tiles_from_distinct)
  then have dist: "distinct ?TN" "distinct ?TS" "x \<notin> set ?TN" "x \<notin> set ?TS" "set ?TN \<inter> set ?TS = {}"
    unfolding split by auto
  from run(1) have cont: "list_all (IsDriveThroughRoadStopContinuation w x) ?TN"
    "IsDriveThroughRoadStopContinuation w x x" "list_all (IsDriveThroughRoadStopContinuation w x) ?TS"
    unfolding split by simp_all
  from stops have st: "stops_at w rst ?TN idsN" "stops_at w rst (x # ?TS) (this # idsS)"
    unfolding split by (auto intro: stops_at_append_length)
  then have stS: "stops_at w rst ?TS idsS" and gx: "GetByTile w x rst = Inr this"
    by (auto simp: stops_at_Cons)
  from mn obtain m' n' where m': "m = Suc m'" and n': "n = Suc n'"
    by (cases m; cases n) auto
  from stops_at_length[OF stS] n' obtain s ids where idsS: "idsS = s # ids"
    by (cases idsS) auto
  \<comment> \<open>the northern neighbour is the last stop of the northern run\<close>
  have "?TN ! m' = ?b + of_nat m' * off"
    by (rule tiles_from_nth) (simp add: m')
  also have "\<dots> = x - off"
    by (simp add: m' algebra_simps)
  finally have lastN: "?TN ! m' = x - off" .
  have inN: "x - off \<in> set ?TN"
    using lastN by (metis length_tiles_from lessI m' nth_mem)
  have cN: "IsDriveThroughRoadStopContinuation w x (x - off)"
    using cont(1) inN by (simp add: list_all_iff)
  have gN: "GetByTile w (x - off) rst = Inr (idsN ! m')"
    using stops_at_nth[OF st(1), of m'] lastN by (simp add: m')
  have lenN: "length idsN = Suc m'" using stops(2) m' by simp
  have pN: "platform_of w (idsN ! m') = Some pn"
    using plats(1) lenN by (simp add: list_all_length)
  have sepS: "x - off \<notin> set (tiles_from (x + off) off (Suc n'))"
    using inN dist(5) unfolding n' by blast
  have xS: "x \<notin> set (tiles_from (x + off) off (Suc n'))"
    using dist(4) unfolding n' .
  have e2: "x + off + of_nat (Suc n') * off = x + of_nat (Suc n) * off"
    by (simp add: n' algebra_simps)
  have endS: "\<not> IsDriveThroughRoadStopContinuation w x (x + off + of_nat (Suc n') * off)"
    unfolding e2 by (rule run(3))
  have plS: "list_all (\<lambda>i. platform_of w i \<noteq> None) (s # ids)" "platform_of w s = Some ps"
    using plats(2) idsS by (auto simp: list_all_iff)
  define w' where "w' = (repoint (s # ids) (Some pn)
                  (rs_update s (status_update (\<lambda>x. ClrBit x RSSFB_BASE_ENTRY))
                     (rs_update this (platform_update (\<lambda>_. Some pn)) w)))
                 \<lparr>platforms := (platforms w)
                     [pn := Some (PN\<lparr>plat_length := plat_length PN + (2 + int n') * TILE_SIZE,
                                     occupied_east := occupied_east PN + occupied_east PS,
                                     occupied_west := occupied_west PN + occupied_west PS\<rparr>),
                      ps := None]\<rparr>"
  have res: "MakeDriveThrough this w = Some (Inr w')"
    unfolding w'_def
    using cont(3) stS
    by (intro MakeDriveThrough_merge[OF ths x cN gN pN _ endS _ xS sepS plS heap(1,3,4)])
      (simp_all add: n' idsS)
  have sm: "same_map w w'"
    by (auto simp: w'_def same_map_def repoint_road_stop option.map_comp comp_def)
  have lp: "pn < length (platforms w)" "ps < length (platforms w)"
    using heap by (auto dest: plat_get_less)
  have thisN: "this \<notin> set idsN"
    using st(1) ths(1) by (rule stops_at_not_in) (simp add: x dist)
  have disj: "set idsN \<inter> set idsS = {}"
  proof -
    have "i \<notin> set idsS" if "i \<in> set idsN" for i
    proof -
      from stops_at_set_xy[OF st(1) that] obtain r where "road_stop w i = Some r" "xy r \<in> set ?TN"
        by blast
      with dist(5) show ?thesis
        by (intro stops_at_not_in[OF stS]) auto
    qed
    then show ?thesis by auto
  qed
  have pall: "list_all (\<lambda>i. platform_of w' i = Some pn) (idsN @ this # idsS)"
  proof -
    have "platform_of w' i = Some pn" if "i \<in> set idsN" for i
    proof -
      from that disj thisN have "i \<notin> set (s # ids)" "i \<noteq> this" "i \<noteq> s" by (auto simp: idsS)
      moreover have "platform_of w i = Some pn" using plats(1) that by (simp add: list_all_iff)
      ultimately show ?thesis
        by (simp add: w'_def platform_of_repoint platform_of_rs_update_platform)
    qed
    moreover have "platform_of w' this = Some pn"
    proof -
      have "this \<notin> set (s # ids)"
        using stS ths(1) unfolding idsS by (rule stops_at_not_in) (simp add: x dist)
      then show ?thesis
        using ths by (simp add: w'_def platform_of_repoint platform_of_rs_update_platform)
    qed
    moreover have "platform_of w' i = Some pn" if "i \<in> set idsS" for i
    proof -
      from stops_at_set_xy[OF stS that] have "road_stop w i \<noteq> None" by auto
      then show ?thesis
        using that by (auto simp: w'_def platform_of_repoint idsS split: if_splits)
    qed
    ultimately show ?thesis
      by (auto simp: list_all_iff)
  qed
  have gpn: "plat_get w' pn = Some \<lparr>plat_length = TILE_SIZE * int (m + n + 1),
                             occupied_east = occupied_east PN + occupied_east PS,
                             occupied_west = occupied_west PN + occupied_west PS\<rparr>"
    using lp heap(2,4) by (cases PN) (simp add: w'_def plat_get_platforms n' algebra_simps)
  have gps: "plat_get w' ps = None"
    using lp by (simp add: w'_def plat_get_platforms)
  have oth: "plat_get w' q = plat_get w q" if "q \<noteq> pn" "q \<noteq> ps" for q
    using that by (simp add: w'_def plat_get_platforms) (simp add: plat_get_def)
  show ?thesis
    using res sm run stops pall gpn gps oth
    by (auto simp: same_map_IsCont[OF sm] same_map_stops_at[OF sm])
qed

theorem MakeDriveThrough_joins_runs_witness:
  "\<exists>w'. MakeDriveThrough 1 ex_gap = Some (Inr w') \<and>
     list_all (\<lambda>i. platform_of w' i = Some 0) [0, 1, 2] \<and>
     plat_get w' 0 = Some \<lparr>plat_length = 48, occupied_east = 8, occupied_west = 8\<rparr> \<and>
     plat_get w' 1 = None"
proof -
  have ths: "road_stop ex_gap 1 = Some (ex_stop 11 0 None)" "platform (ex_stop 11 0 None) = None"
    by (simp_all add: ex_gap_def ex_world_def ex_stop_def)
  have x: "xy (ex_stop 11 0 None) = 11" "south_offset ex_gap 11 = 1" "GetRoadStopType ex_gap 11 = ROADSTOP_BUS"
    by code_simp+
  have mn: "0 < (1::nat)" "0 < (1::nat)" by simp_all
  have run: "list_all (IsDriveThroughRoadStopContinuation ex_gap 11) (tiles_from (11 - of_nat 1 * 1) 1 (1 + 1 + 1))"
    "\<not> IsDriveThroughRoadStopContinuation ex_gap 11 (11 - of_nat 1 * 1 - 1)"
    "\<not> IsDriveThroughRoadStopContinuation ex_gap 11 (11 + of_nat (Suc 1) * 1)"
    by code_simp+
  have stops: "stops_at ex_gap ROADSTOP_BUS (tiles_from (11 - of_nat 1 * 1) 1 (1 + 1 + 1)) ([0] @ 1 # [2])"
    "length [0::nat] = 1"
    by code_simp+
  have plats: "list_all (\<lambda>i. platform_of ex_gap i = Some 0) [0]"
    "list_all (\<lambda>i. platform_of ex_gap i = Some 1) [2]"
    by code_simp+
  have heap: "plat_get ex_gap 0 = Some \<lparr>plat_length = 16, occupied_east = 8, occupied_west = 0\<rparr>"
    "plat_length \<lparr>plat_length = 16, occupied_east = 8, occupied_west = 0\<rparr> = TILE_SIZE * int 1"
    "plat_get ex_gap 1 = Some \<lparr>plat_length = 16, occupied_east = 0, occupied_west = 8\<rparr>"
    "(0::nat) \<noteq> 1"
    by (simp_all add: plat_get_def ex_gap_def ex_world_def TILE_SIZE_def)
  show ?thesis
    using MakeDriveThrough_joins_runs[OF ths x mn run stops plats heap]
    by (auto simp: TILE_SIZE_def)
qed

text \<open>
  C5: for a tile from which \<^verbatim>\<open>Platform::Rebuild\<close> finds a run of \<open>n\<close> tiles (it walks
  on while the next tile continues the stop), the rebuilt platform has the length
  \<open>TILE_SIZE\<close> times \<open>n\<close>, and its eastern (western) occupancy is the sum of the cached
  lengths over the set of the vehicles on some tile of the run that are primary road
  vehicles, not crashed and in a road stop, and that travel in the run's forward direction
  (in its reverse): a sum over a set, so each vehicle counts once however many tiles list
  it. This is what \<^verbatim>\<open>Rebuild\<close> returns when every counted vehicle travels along the axis;
  otherwise its assertion on the direction fails.
\<close>

theorem Platform_Rebuild_correct:
  assumes "list_all (IsDriveThroughRoadStopContinuation w tile) (tiles_from tile (Rebuild_offset w tile) n)"
    and "\<not> IsDriveThroughRoadStopContinuation w tile (tile + of_nat n * Rebuild_offset w tile)"
  shows "Platform_Rebuild w tile =
     (if directions_ok w (tiles_from tile (Rebuild_offset w tile) n) (Rebuild_dir_east w tile)
      then Some (Inr \<lparr>plat_length = TILE_SIZE * int n,
             occupied_east = occupancy w (tiles_from tile (Rebuild_offset w tile) n) (Rebuild_dir_east w tile),
             occupied_west = occupancy w (tiles_from tile (Rebuild_offset w tile) n)
                               (ReverseDir (Rebuild_dir_east w tile))\<rparr>)
      else Some (Inl AssertionFailed))"
  using assms by (rule Platform_Rebuild_run)

theorem Platform_Rebuild_correct_witness:
  "Platform_Rebuild ex_three 10 =
     Some (Inr \<lparr>plat_length = 48, occupied_east = 8, occupied_west = 8\<rparr>)"
proof -
  have o: "Rebuild_offset ex_three 10 = 1"
    by code_simp
  have d: "Rebuild_dir_east ex_three 10 = DIR_NE"
    by code_simp
  have t: "tiles_from 10 1 3 = [10, 11, 12]"
    by code_simp
  have 1: "list_all (IsDriveThroughRoadStopContinuation ex_three 10) (tiles_from 10 (Rebuild_offset ex_three 10) 3)"
    by code_simp
  have 2: "\<not> IsDriveThroughRoadStopContinuation ex_three 10 (10 + of_nat 3 * Rebuild_offset ex_three 10)"
    by code_simp
  have 3: "directions_ok ex_three [10, 11, 12] DIR_NE"
    by code_simp
  have "vehicles_in ex_three [10, 11, 12] DIR_NE = {0}"
    by (auto simp: vehicles_in_def ex_three_def ex_world_def counted_def ex_vehicle_def
        VS_CRASHED_def RVSB_IN_ROAD_STOP_def split: if_splits)
  then have e: "occupancy ex_three [10, 11, 12] DIR_NE = 8"
    by (simp add: occupancy_def ex_three_def ex_world_def ex_vehicle_def)
  have "vehicles_in ex_three [10, 11, 12] DIR_SW = {1}"
    by (auto simp: vehicles_in_def ex_three_def ex_world_def counted_def ex_vehicle_def
        VS_CRASHED_def RVSB_IN_ROAD_STOP_def split: if_splits)
  then have w: "occupancy ex_three [10, 11, 12] DIR_SW = 8"
    by (simp add: occupancy_def ex_three_def ex_world_def ex_vehicle_def)
  show ?thesis
    using Platform_Rebuild_correct[OF 1 2] 3 e w by (simp add: o d t TILE_SIZE_def)
qed

subsection \<open>MakeDriveThrough on a tile without a usable neighbour\<close>

text \<open>
  C6: for every tile with no continuation neighbour that holds a platform,
  \<^verbatim>\<open>MakeDriveThrough\<close> returns, allocates exactly one brand-new platform (the arena
  grows by one slot and is otherwise unchanged), makes the stop point to it, sets the stop's
  base bit, and leaves the new platform with a length of one tile (\<open>TILE_SIZE\<close>) and both
  occupancies zero; nothing else changes.
\<close>

theorem MakeDriveThrough_alone:
  assumes "road_stop w this = Some rs" and "platform rs = None"
    and "neighbour w (xy rs) (GetRoadStopType w (xy rs)) (xy rs - south_offset w (xy rs)) = Inr rn"
    and "ptr_platform w rn = None"
    and "neighbour w (xy rs) (GetRoadStopType w (xy rs)) (xy rs + south_offset w (xy rs)) = Inr rsth"
    and "ptr_platform w rsth = None"
  shows "MakeDriveThrough this w =
     Some (Inr (w\<lparr>road_stop := (road_stop w)(this \<mapsto>
                     rs\<lparr>status := SetBit (status rs) RSSFB_BASE_ENTRY,
                        platform := Some (length (platforms w))\<rparr>),
                  platforms := platforms w @
                     [Some \<lparr>plat_length = TILE_SIZE, occupied_east = 0, occupied_west = 0\<rparr>]\<rparr>))
     \<and> HasBit (SetBit (status rs) RSSFB_BASE_ENTRY) RSSFB_BASE_ENTRY"
proof -
  define w3 where "w3 = rs_update this (status_update (\<lambda>x. SetBit x RSSFB_BASE_ENTRY))
          (rs_update this (platform_update (\<lambda>_. Some (length (platforms w))))
             (w\<lparr>platforms := platforms w @ [Some Platform_new]\<rparr>))"
  have c: "MakeDriveThrough_cases this (xy rs) (GetRoadStopType w (xy rs)) (south_offset w (xy rs))
       rn rsth (xy rs + south_offset w (xy rs)) w = ok (w3, 1)"
    using assms(4,6)
    by (simp add: MakeDriveThrough_cases_def plat_alloc_def Let_def w3_def split: option.splits)
  have m: "MakeDriveThrough this w =
      lift (plat_modify (platform_of w3 this) (plat_length_update (\<lambda>l. l + 1 * TILE_SIZE)) w3)"
    using assms(1,2,3,5) by (simp add: MakeDriveThrough_def Let_def c)
  have p: "platform_of w3 this = Some (length (platforms w))"
    using assms(1) by (simp add: w3_def platform_of_def)
  have g: "plat_get w3 (length (platforms w)) = Some Platform_new"
    by (simp add: w3_def plat_get_def)
  have "plat_modify (platform_of w3 this) (plat_length_update (\<lambda>l. l + 1 * TILE_SIZE)) w3 =
    Inr (w\<lparr>road_stop := (road_stop w)(this \<mapsto>
                     rs\<lparr>status := SetBit (status rs) RSSFB_BASE_ENTRY,
                        platform := Some (length (platforms w))\<rparr>),
                  platforms := platforms w @
                     [Some \<lparr>plat_length = TILE_SIZE, occupied_east = 0, occupied_west = 0\<rparr>]\<rparr>)"
    unfolding p plat_modify_Some[OF g]
    using assms(1)
    by (cases rs) (auto intro!: world_eqI simp: w3_def Platform_new_def)
  then show ?thesis
    by (simp add: m lift_def)
qed


theorem MakeDriveThrough_alone_witness:
  "MakeDriveThrough 0 ex_first =
     Some (Inr (ex_first\<lparr>road_stop := (road_stop ex_first)(0 \<mapsto>
                     (ex_stop 10 0 None)\<lparr>status := SetBit (status (ex_stop 10 0 None)) RSSFB_BASE_ENTRY,
                        platform := Some (length (platforms ex_first))\<rparr>),
                  platforms := platforms ex_first @
                     [Some \<lparr>plat_length = TILE_SIZE, occupied_east = 0, occupied_west = 0\<rparr>]\<rparr>))
     \<and> HasBit (SetBit (status (ex_stop 10 0 None)) RSSFB_BASE_ENTRY) RSSFB_BASE_ENTRY"
proof -
  have 1: "road_stop ex_first 0 = Some (ex_stop 10 0 None)"
    by (simp add: ex_first_def ex_world_def)
  have 2: "platform (ex_stop 10 0 None) = None"
    by (simp add: ex_stop_def)
  have 3: "neighbour ex_first (xy (ex_stop 10 0 None)) (GetRoadStopType ex_first (xy (ex_stop 10 0 None)))
     (xy (ex_stop 10 0 None) - south_offset ex_first (xy (ex_stop 10 0 None))) = Inr None"
    by code_simp
  have 4: "neighbour ex_first (xy (ex_stop 10 0 None)) (GetRoadStopType ex_first (xy (ex_stop 10 0 None)))
     (xy (ex_stop 10 0 None) + south_offset ex_first (xy (ex_stop 10 0 None))) = Inr None"
    by code_simp
  have 5: "ptr_platform ex_first None = None"
    by (simp add: ptr_platform_def)
  show ?thesis
    by (rule MakeDriveThrough_alone[OF 1 2 3 5 4 5])
qed

subsection \<open>ClearDriveThrough with a continuation on exactly one side\<close>

lemma clear_one_side:
  assumes rs: "road_stop w this = Some rs" "platform rs \<noteq> None"
  defines "off \<equiv> south_offset w (xy rs)" and "rst \<equiv> GetRoadStopType w (xy rs)"
  shows "neighbour w (xy rs) rst (xy rs - off) = Inr (Some n) \<Longrightarrow>
         neighbour w (xy rs) rst (xy rs + off) = Inr None \<Longrightarrow>
         platform_of w n = Some p \<Longrightarrow> plat_get w p = Some pl \<Longrightarrow>
         ClearDriveThrough this w =
           Some (Inr (w\<lparr>tiles := (tiles w)(xy rs := (tiles w (xy rs))\<lparr>tile_is_station := False\<rparr>),
                        road_stop := (road_stop w)(this \<mapsto>
                           rs\<lparr>status := ClrBit (status rs) RSSFB_BASE_ENTRY, platform := None\<rparr>),
                        platforms := (platforms w)[p := Some (pl\<lparr>plat_length := plat_length pl - TILE_SIZE\<rparr>)]\<rparr>))"
    and "neighbour w (xy rs) rst (xy rs - off) = Inr None \<Longrightarrow>
         neighbour w (xy rs) rst (xy rs + off) = Inr (Some s) \<Longrightarrow>
         road_stop w s = Some r \<Longrightarrow> platform r = Some p \<Longrightarrow> plat_get w p = Some pl \<Longrightarrow>
         ClearDriveThrough this w =
           Some (Inr (w\<lparr>tiles := (tiles w)(xy rs := (tiles w (xy rs))\<lparr>tile_is_station := False\<rparr>),
                        road_stop := (road_stop w)(s \<mapsto> r\<lparr>status := SetBit (status r) RSSFB_BASE_ENTRY\<rparr>,
                           this \<mapsto> rs\<lparr>status := ClrBit (status rs) RSSFB_BASE_ENTRY, platform := None\<rparr>),
                        platforms := (platforms w)[p := Some (pl\<lparr>plat_length := plat_length pl - TILE_SIZE\<rparr>)]\<rparr>))"
proof -
  {
    assume n: "neighbour w (xy rs) rst (xy rs - off) = Inr (Some n)"
      and s: "neighbour w (xy rs) rst (xy rs + off) = Inr None"
      and p: "platform_of w n = Some p" "plat_get w p = Some pl"
    define w1 where "w1 = DoClearSquare (xy rs) w"
    have c: "ClearDriveThrough_cases this rst off (Some n) (xy rs - off) None (xy rs + off) w1
       = Some (Inr (w1\<lparr>platforms := (platforms w)[p := Some (plat_length_update (\<lambda>l. l - TILE_SIZE) pl)]\<rparr>))"
      using p by (simp add: ClearDriveThrough_cases_def w1_def plat_modify_Some lift_def)
    have "ClearDriveThrough this w = ok (rs_update this (platform_update (\<lambda>_. None))
                   (rs_update this (status_update (\<lambda>x. ClrBit x RSSFB_BASE_ENTRY))
                      (w1\<lparr>platforms := (platforms w)[p := Some (plat_length_update (\<lambda>l. l - TILE_SIZE) pl)]\<rparr>)))"
      using rs n s c unfolding off_def rst_def w1_def
      by (auto simp add: ClearDriveThrough_def Let_def)
    also have "\<dots> = Some (Inr (w\<lparr>tiles := (tiles w)(xy rs := (tiles w (xy rs))\<lparr>tile_is_station := False\<rparr>),
                        road_stop := (road_stop w)(this \<mapsto>
                           rs\<lparr>status := ClrBit (status rs) RSSFB_BASE_ENTRY, platform := None\<rparr>),
                        platforms := (platforms w)[p := Some (pl\<lparr>plat_length := plat_length pl - TILE_SIZE\<rparr>)]\<rparr>))"
      using rs(1) by (cases rs, cases pl) (auto intro!: world_eqI simp: ok_def w1_def DoClearSquare_def)
    finally show "ClearDriveThrough this w =
           Some (Inr (w\<lparr>tiles := (tiles w)(xy rs := (tiles w (xy rs))\<lparr>tile_is_station := False\<rparr>),
                        road_stop := (road_stop w)(this \<mapsto>
                           rs\<lparr>status := ClrBit (status rs) RSSFB_BASE_ENTRY, platform := None\<rparr>),
                        platforms := (platforms w)[p := Some (pl\<lparr>plat_length := plat_length pl - TILE_SIZE\<rparr>)]\<rparr>))" .
  }
  {
    assume n: "neighbour w (xy rs) rst (xy rs - off) = Inr None"
      and s: "neighbour w (xy rs) rst (xy rs + off) = Inr (Some s)"
      and p: "road_stop w s = Some r" "platform r = Some p" "plat_get w p = Some pl"
    from neighbour_Some[OF s] p have xs: "xy r = xy rs + off" by auto
    have "xy rs + off \<noteq> xy rs"
      using n s by auto
    with xs rs p have ne: "s \<noteq> this" by auto
    define w1 where "w1 = rs_update s (status_update (\<lambda>x. SetBit x RSSFB_BASE_ENTRY)) (DoClearSquare (xy rs) w)"
    have c: "ClearDriveThrough_cases this rst off None (xy rs - off) (Some s) (xy rs + off) (DoClearSquare (xy rs) w)
       = Some (Inr (w1\<lparr>platforms := (platforms w)[p := Some (plat_length_update (\<lambda>l. l - TILE_SIZE) pl)]\<rparr>))"
      using p by (simp add: ClearDriveThrough_cases_def w1_def plat_modify_Some lift_def
          platform_of_def Let_def)
    have "ClearDriveThrough this w = ok (rs_update this (platform_update (\<lambda>_. None))
                   (rs_update this (status_update (\<lambda>x. ClrBit x RSSFB_BASE_ENTRY))
                      (w1\<lparr>platforms := (platforms w)[p := Some (plat_length_update (\<lambda>l. l - TILE_SIZE) pl)]\<rparr>)))"
      using rs n s c unfolding off_def rst_def
      by (auto simp add: ClearDriveThrough_def Let_def)
    also have "\<dots> = Some (Inr (w\<lparr>tiles := (tiles w)(xy rs := (tiles w (xy rs))\<lparr>tile_is_station := False\<rparr>),
                        road_stop := (road_stop w)(s \<mapsto> r\<lparr>status := SetBit (status r) RSSFB_BASE_ENTRY\<rparr>,
                           this \<mapsto> rs\<lparr>status := ClrBit (status rs) RSSFB_BASE_ENTRY, platform := None\<rparr>),
                        platforms := (platforms w)[p := Some (pl\<lparr>plat_length := plat_length pl - TILE_SIZE\<rparr>)]\<rparr>))"
      using rs(1) p(1) ne by (cases rs, cases r, cases pl) (auto intro!: world_eqI simp: ok_def w1_def DoClearSquare_def)
    finally show "ClearDriveThrough this w =
           Some (Inr (w\<lparr>tiles := (tiles w)(xy rs := (tiles w (xy rs))\<lparr>tile_is_station := False\<rparr>),
                        road_stop := (road_stop w)(s \<mapsto> r\<lparr>status := SetBit (status r) RSSFB_BASE_ENTRY\<rparr>,
                           this \<mapsto> rs\<lparr>status := ClrBit (status rs) RSSFB_BASE_ENTRY, platform := None\<rparr>),
                        platforms := (platforms w)[p := Some (pl\<lparr>plat_length := plat_length pl - TILE_SIZE\<rparr>)]\<rparr>))" .
  }
qed


text \<open>
  C7: when \<^verbatim>\<open>ClearDriveThrough\<close> is called on a stop with a continuation on exactly one
  side, it returns the state in which the tile is cleared, the stop itself has lost its base
  bit and its platform pointer, and the neighbour's platform (the same object: no other
  road stop's pointer changes, and no slot of the arena but this one) has its length
  decreased by \<open>TILE_SIZE\<close> with both occupancies unchanged. With the continuation on
  the north no other road stop changes at all; with the continuation on the south the only
  other change is that the southern neighbour gets the base bit.
\<close>

theorem ClearDriveThrough_one_side:
  assumes "road_stop w this = Some rs" and "platform rs \<noteq> None"
  shows "(\<forall>n p pl.
           neighbour w (xy rs) (GetRoadStopType w (xy rs)) (xy rs - south_offset w (xy rs)) = Inr (Some n) \<and>
           neighbour w (xy rs) (GetRoadStopType w (xy rs)) (xy rs + south_offset w (xy rs)) = Inr None \<and>
           platform_of w n = Some p \<and> plat_get w p = Some pl \<longrightarrow>
           ClearDriveThrough this w =
             Some (Inr (w\<lparr>tiles := (tiles w)(xy rs := (tiles w (xy rs))\<lparr>tile_is_station := False\<rparr>),
                          road_stop := (road_stop w)(this \<mapsto>
                             rs\<lparr>status := ClrBit (status rs) RSSFB_BASE_ENTRY, platform := None\<rparr>),
                          platforms := (platforms w)[p := Some (pl\<lparr>plat_length := plat_length pl - TILE_SIZE\<rparr>)]\<rparr>)))
       \<and> (\<forall>s r p pl.
           neighbour w (xy rs) (GetRoadStopType w (xy rs)) (xy rs - south_offset w (xy rs)) = Inr None \<and>
           neighbour w (xy rs) (GetRoadStopType w (xy rs)) (xy rs + south_offset w (xy rs)) = Inr (Some s) \<and>
           road_stop w s = Some r \<and> platform r = Some p \<and> plat_get w p = Some pl \<longrightarrow>
           ClearDriveThrough this w =
             Some (Inr (w\<lparr>tiles := (tiles w)(xy rs := (tiles w (xy rs))\<lparr>tile_is_station := False\<rparr>),
                          road_stop := (road_stop w)(s \<mapsto> r\<lparr>status := SetBit (status r) RSSFB_BASE_ENTRY\<rparr>,
                             this \<mapsto> rs\<lparr>status := ClrBit (status rs) RSSFB_BASE_ENTRY, platform := None\<rparr>),
                          platforms := (platforms w)[p := Some (pl\<lparr>plat_length := plat_length pl - TILE_SIZE\<rparr>)]\<rparr>)))"
  using clear_one_side(1)[OF assms] clear_one_side(2)[OF assms] by blast

theorem ClearDriveThrough_one_side_witness:
  "ClearDriveThrough 1 ex_two =
     Some (Inr (ex_two\<lparr>tiles := (tiles ex_two)(11 := (tiles ex_two 11)\<lparr>tile_is_station := False\<rparr>),
                  road_stop := (road_stop ex_two)(1 \<mapsto> ex_stop 11 0 None),
                  platforms := [Some \<lparr>plat_length = 16, occupied_east = 8, occupied_west = 0\<rparr>]\<rparr>))
   \<and> ClearDriveThrough 0 ex_two =
     Some (Inr (ex_two\<lparr>tiles := (tiles ex_two)(10 := (tiles ex_two 10)\<lparr>tile_is_station := False\<rparr>),
                  road_stop := (road_stop ex_two)(1 \<mapsto> ex_stop 11 0x40 (Some 0), 0 \<mapsto> ex_stop 10 0 None),
                  platforms := [Some \<lparr>plat_length = 16, occupied_east = 8, occupied_west = 0\<rparr>]\<rparr>))"
proof -
  have n1: "road_stop ex_two 1 = Some (ex_stop 11 0 (Some 0))"
    and n0: "road_stop ex_two 0 = Some (ex_stop 10 0x40 (Some 0))"
    by (simp_all add: ex_two_def ex_world_def)
  have p: "platform (ex_stop 11 0 (Some 0)) \<noteq> None" "platform (ex_stop 10 0x40 (Some 0)) \<noteq> None"
    by (simp_all add: ex_stop_def)
  have a: "neighbour ex_two (xy (ex_stop 11 0 (Some 0))) (GetRoadStopType ex_two (xy (ex_stop 11 0 (Some 0))))
        (xy (ex_stop 11 0 (Some 0)) - south_offset ex_two (xy (ex_stop 11 0 (Some 0)))) = Inr (Some 0)"
    by code_simp
  have b: "neighbour ex_two (xy (ex_stop 11 0 (Some 0))) (GetRoadStopType ex_two (xy (ex_stop 11 0 (Some 0))))
        (xy (ex_stop 11 0 (Some 0)) + south_offset ex_two (xy (ex_stop 11 0 (Some 0)))) = Inr None"
    by code_simp
  have c: "neighbour ex_two (xy (ex_stop 10 0x40 (Some 0))) (GetRoadStopType ex_two (xy (ex_stop 10 0x40 (Some 0))))
        (xy (ex_stop 10 0x40 (Some 0)) - south_offset ex_two (xy (ex_stop 10 0x40 (Some 0)))) = Inr None"
    by code_simp
  have d: "neighbour ex_two (xy (ex_stop 10 0x40 (Some 0))) (GetRoadStopType ex_two (xy (ex_stop 10 0x40 (Some 0))))
        (xy (ex_stop 10 0x40 (Some 0)) + south_offset ex_two (xy (ex_stop 10 0x40 (Some 0)))) = Inr (Some 1)"
    by code_simp
  have e: "platform_of ex_two 0 = Some 0" "platform (ex_stop 11 0 (Some 0)) = Some 0"
    "plat_get ex_two 0 = Some \<lparr>plat_length = 32, occupied_east = 8, occupied_west = 0\<rparr>"
    by (simp_all add: platform_of_def plat_get_def ex_two_def ex_world_def ex_stop_def)
  have north: "ClearDriveThrough 1 ex_two =
     Some (Inr (ex_two\<lparr>tiles := (tiles ex_two)(xy (ex_stop 11 0 (Some 0)) :=
                     (tiles ex_two (xy (ex_stop 11 0 (Some 0))))\<lparr>tile_is_station := False\<rparr>),
                  road_stop := (road_stop ex_two)(1 \<mapsto>
                     (ex_stop 11 0 (Some 0))\<lparr>status := ClrBit (status (ex_stop 11 0 (Some 0))) RSSFB_BASE_ENTRY,
                         platform := None\<rparr>),
                  platforms := (platforms ex_two)[0 := Some (\<lparr>plat_length = 32, occupied_east = 8, occupied_west = 0\<rparr>
                       \<lparr>plat_length := plat_length \<lparr>plat_length = 32, occupied_east = 8, occupied_west = 0\<rparr> - TILE_SIZE\<rparr>)]\<rparr>))"
    using ClearDriveThrough_one_side[OF n1 p(1)] a b e by blast
  have south: "ClearDriveThrough 0 ex_two =
     Some (Inr (ex_two\<lparr>tiles := (tiles ex_two)(xy (ex_stop 10 0x40 (Some 0)) :=
                     (tiles ex_two (xy (ex_stop 10 0x40 (Some 0))))\<lparr>tile_is_station := False\<rparr>),
                  road_stop := (road_stop ex_two)(1 \<mapsto>
                     (ex_stop 11 0 (Some 0))\<lparr>status := SetBit (status (ex_stop 11 0 (Some 0))) RSSFB_BASE_ENTRY\<rparr>,
                     0 \<mapsto> (ex_stop 10 0x40 (Some 0))\<lparr>status := ClrBit (status (ex_stop 10 0x40 (Some 0))) RSSFB_BASE_ENTRY,
                         platform := None\<rparr>),
                  platforms := (platforms ex_two)[0 := Some (\<lparr>plat_length = 32, occupied_east = 8, occupied_west = 0\<rparr>
                       \<lparr>plat_length := plat_length \<lparr>plat_length = 32, occupied_east = 8, occupied_west = 0\<rparr> - TILE_SIZE\<rparr>)]\<rparr>))"
    using ClearDriveThrough_one_side[OF n0 p(2)] c d n1 e by blast
  have s1: "ClrBit (0::8 word) RSSFB_BASE_ENTRY = 0" "SetBit (0::8 word) RSSFB_BASE_ENTRY = 0x40"
    "ClrBit (0x40::8 word) RSSFB_BASE_ENTRY = 0"
    by (simp_all add: ClrBit_def SetBit_def RSSFB_BASE_ENTRY_def)
  have pl: "platforms ex_two = [Some \<lparr>plat_length = 32, occupied_east = 8, occupied_west = 0\<rparr>]"
    by (simp add: ex_two_def ex_world_def)
  show ?thesis
    using north south by (simp add: ex_stop_def s1 pl TILE_SIZE_def)
qed

subsection \<open>The postcondition of ClearDriveThrough\<close>

text \<open>
  C8: \<^verbatim>\<open>ClearDriveThrough\<close> is called on a stop \<open>this\<close> with a platform. In each of the
  four cases of its neighbours, in a state where the pointers that the case follows are
  valid, the call returns, and in the state it returns the detached stop's base bit is
  cleared and its platform pointer is null:
  \<^item> no neighbour continues the stop, and the stop's platform is live (it is deleted);
  \<^item> only the northern neighbour continues the stop, and its platform is live;
  \<^item> only the southern neighbour continues the stop, and its platform is live;
  \<^item> both neighbours continue the stop: the stop is on the tile \<open>x\<close> of a run with
    \<open>a > 0\<close> tiles to its north and \<open>c > 0\<close> tiles to its south that share the live platform
    \<open>p\<close>, the first stop of the run is the base, \<^verbatim>\<open>Platform::Rebuild\<close> steps along the run
    as the stop's axis says, and every counted vehicle on the two parts travels along the
    axis (the assertion of \<^verbatim>\<open>Rebuild\<close>).
\<close>

theorem ClearDriveThrough_postcondition:
  assumes "road_stop w this = Some rs" and "platform rs \<noteq> None"
  shows "(\<forall>p pl.
           neighbour w (xy rs) (GetRoadStopType w (xy rs)) (xy rs - south_offset w (xy rs)) = Inr None \<and>
           neighbour w (xy rs) (GetRoadStopType w (xy rs)) (xy rs + south_offset w (xy rs)) = Inr None \<and>
           platform rs = Some p \<and> plat_get w p = Some pl \<longrightarrow>
           (\<exists>w' r. ClearDriveThrough this w = Some (Inr w') \<and> road_stop w' this = Some r \<and>
              \<not> HasBit (status r) RSSFB_BASE_ENTRY \<and> platform r = None))
       \<and> (\<forall>n p pl.
           neighbour w (xy rs) (GetRoadStopType w (xy rs)) (xy rs - south_offset w (xy rs)) = Inr (Some n) \<and>
           neighbour w (xy rs) (GetRoadStopType w (xy rs)) (xy rs + south_offset w (xy rs)) = Inr None \<and>
           platform_of w n = Some p \<and> plat_get w p = Some pl \<longrightarrow>
           (\<exists>w' r. ClearDriveThrough this w = Some (Inr w') \<and> road_stop w' this = Some r \<and>
              \<not> HasBit (status r) RSSFB_BASE_ENTRY \<and> platform r = None))
       \<and> (\<forall>s rsth p pl.
           neighbour w (xy rs) (GetRoadStopType w (xy rs)) (xy rs - south_offset w (xy rs)) = Inr None \<and>
           neighbour w (xy rs) (GetRoadStopType w (xy rs)) (xy rs + south_offset w (xy rs)) = Inr (Some s) \<and>
           road_stop w s = Some rsth \<and> platform rsth = Some p \<and> plat_get w p = Some pl \<longrightarrow>
           (\<exists>w' r. ClearDriveThrough this w = Some (Inr w') \<and> road_stop w' this = Some r \<and>
              \<not> HasBit (status r) RSSFB_BASE_ENTRY \<and> platform r = None))
       \<and> (\<forall>x off rst a c b idsN idsS p P rb.
           xy rs = x \<and> south_offset w x = off \<and> GetRoadStopType w x = rst \<and>
           0 < a \<and> 0 < c \<and> b = x - of_nat a * off \<and>
           list_all (IsDriveThroughRoadStopContinuation w x) (tiles_from b off (a + 1 + c)) \<and>
           \<not> IsDriveThroughRoadStopContinuation w x (b - off) \<and>
           \<not> IsDriveThroughRoadStopContinuation w x (x + of_nat (Suc c) * off) \<and>
           stops_at w rst (tiles_from b off (a + 1 + c)) (idsN @ this # idsS) \<and> length idsN = a \<and>
           list_all (\<lambda>i. platform_of w i = Some p) (idsN @ this # idsS) \<and> plat_get w p = Some P \<and>
           road_stop w (hd idsN) = Some rb \<and> HasBit (status rb) RSSFB_BASE_ENTRY \<and>
           Rebuild_offset w b = off \<and> Rebuild_offset w (x + off) = off \<and>
           directions_ok w (tiles_from b off a) (Rebuild_dir_east w b) \<and>
           directions_ok w (tiles_from (x + off) off c) (Rebuild_dir_east w (x + off)) \<longrightarrow>
           (\<exists>w' r. ClearDriveThrough this w = Some (Inr w') \<and> road_stop w' this = Some r \<and>
              \<not> HasBit (status r) RSSFB_BASE_ENTRY \<and> platform r = None))"
proof -
  have post: "\<exists>w' r. ClearDriveThrough this w = Some (Inr w') \<and> road_stop w' this = Some r \<and>
              \<not> HasBit (status r) RSSFB_BASE_ENTRY \<and> platform r = None"
    if "\<exists>w'. ClearDriveThrough this w = Some (Inr w')"
    using that clear_post by blast
  have neither: "\<exists>w'. ClearDriveThrough this w = Some (Inr w')"
    if "neighbour w (xy rs) (GetRoadStopType w (xy rs)) (xy rs - south_offset w (xy rs)) = Inr None"
      "neighbour w (xy rs) (GetRoadStopType w (xy rs)) (xy rs + south_offset w (xy rs)) = Inr None"
      "platform rs = Some p" "plat_get w p = Some pl" for p pl
    using clear_alone[OF assms(1) that(3,4,1,2)] by blast
  have north: "\<exists>w'. ClearDriveThrough this w = Some (Inr w')"
    if "neighbour w (xy rs) (GetRoadStopType w (xy rs)) (xy rs - south_offset w (xy rs)) = Inr (Some n)"
      "neighbour w (xy rs) (GetRoadStopType w (xy rs)) (xy rs + south_offset w (xy rs)) = Inr None"
      "platform_of w n = Some p" "plat_get w p = Some pl" for n p pl
    using clear_one_side(1)[OF assms that] by blast
  have south: "\<exists>w'. ClearDriveThrough this w = Some (Inr w')"
    if "neighbour w (xy rs) (GetRoadStopType w (xy rs)) (xy rs - south_offset w (xy rs)) = Inr None"
      "neighbour w (xy rs) (GetRoadStopType w (xy rs)) (xy rs + south_offset w (xy rs)) = Inr (Some s)"
      "road_stop w s = Some rsth" "platform rsth = Some p" "plat_get w p = Some pl" for s rsth p pl
    using clear_one_side(2)[OF assms that] by blast
  show ?thesis
  proof (intro conjI allI impI; elim conjE)
    fix p pl
    assume "neighbour w (xy rs) (GetRoadStopType w (xy rs)) (xy rs - south_offset w (xy rs)) = Inr None"
      "neighbour w (xy rs) (GetRoadStopType w (xy rs)) (xy rs + south_offset w (xy rs)) = Inr None"
      "platform rs = Some p" "plat_get w p = Some pl"
    then show "\<exists>w' r. ClearDriveThrough this w = Some (Inr w') \<and> road_stop w' this = Some r \<and>
              \<not> HasBit (status r) RSSFB_BASE_ENTRY \<and> platform r = None"
      by (intro post neither)
  next
    fix n p pl
    assume "neighbour w (xy rs) (GetRoadStopType w (xy rs)) (xy rs - south_offset w (xy rs)) = Inr (Some n)"
      "neighbour w (xy rs) (GetRoadStopType w (xy rs)) (xy rs + south_offset w (xy rs)) = Inr None"
      "platform_of w n = Some p" "plat_get w p = Some pl"
    then show "\<exists>w' r. ClearDriveThrough this w = Some (Inr w') \<and> road_stop w' this = Some r \<and>
              \<not> HasBit (status r) RSSFB_BASE_ENTRY \<and> platform r = None"
      by (intro post north)
  next
    fix s rsth p pl
    assume "neighbour w (xy rs) (GetRoadStopType w (xy rs)) (xy rs - south_offset w (xy rs)) = Inr None"
      "neighbour w (xy rs) (GetRoadStopType w (xy rs)) (xy rs + south_offset w (xy rs)) = Inr (Some s)"
      "road_stop w s = Some rsth" "platform rsth = Some p" "plat_get w p = Some pl"
    then show "\<exists>w' r. ClearDriveThrough this w = Some (Inr w') \<and> road_stop w' this = Some r \<and>
              \<not> HasBit (status r) RSSFB_BASE_ENTRY \<and> platform r = None"
      by (intro post south)
  next
    fix x off rst a c b idsN idsS p P rb
    assume "xy rs = x" "south_offset w x = off" "GetRoadStopType w x = rst"
      "0 < a" "0 < c" "b = x - of_nat a * off"
      "list_all (IsDriveThroughRoadStopContinuation w x) (tiles_from b off (a + 1 + c))"
      "\<not> IsDriveThroughRoadStopContinuation w x (b - off)"
      "\<not> IsDriveThroughRoadStopContinuation w x (x + of_nat (Suc c) * off)"
      "stops_at w rst (tiles_from b off (a + 1 + c)) (idsN @ this # idsS)" "length idsN = a"
      "list_all (\<lambda>i. platform_of w i = Some p) (idsN @ this # idsS)" "plat_get w p = Some P"
      "road_stop w (hd idsN) = Some rb" "HasBit (status rb) RSSFB_BASE_ENTRY"
      "Rebuild_offset w b = off" "Rebuild_offset w (x + off) = off"
      "directions_ok w (tiles_from b off a) (Rebuild_dir_east w b)"
      "directions_ok w (tiles_from (x + off) off c) (Rebuild_dir_east w (x + off))"
    then show "\<exists>w' r. ClearDriveThrough this w = Some (Inr w') \<and> road_stop w' this = Some r \<and>
              \<not> HasBit (status r) RSSFB_BASE_ENTRY \<and> platform r = None"
      by (intro post clear_split_returns[OF assms(1)])
  qed
qed


text \<open>The four cases, each on an example: both sides, north only, south only, neither.\<close>

theorem ClearDriveThrough_postcondition_witness:
  "(\<exists>w' r. ClearDriveThrough 1 ex_three = Some (Inr w') \<and> road_stop w' 1 = Some r \<and>
      \<not> HasBit (status r) RSSFB_BASE_ENTRY \<and> platform r = None) \<and>
   (\<exists>w' r. ClearDriveThrough 1 ex_two = Some (Inr w') \<and> road_stop w' 1 = Some r \<and>
      \<not> HasBit (status r) RSSFB_BASE_ENTRY \<and> platform r = None) \<and>
   (\<exists>w' r. ClearDriveThrough 0 ex_two = Some (Inr w') \<and> road_stop w' 0 = Some r \<and>
      \<not> HasBit (status r) RSSFB_BASE_ENTRY \<and> platform r = None) \<and>
   (\<exists>w' r. ClearDriveThrough 0 ex_single = Some (Inr w') \<and> road_stop w' 0 = Some r \<and>
      \<not> HasBit (status r) RSSFB_BASE_ENTRY \<and> platform r = None)"
proof -
  have both: "\<exists>w' r. ClearDriveThrough 1 ex_three = Some (Inr w') \<and> road_stop w' 1 = Some r \<and>
      \<not> HasBit (status r) RSSFB_BASE_ENTRY \<and> platform r = None"
  proof -
    have ths: "road_stop ex_three 1 = Some (ex_stop 11 0 (Some 0))"
      "platform (ex_stop 11 0 (Some 0)) \<noteq> None"
      by (simp_all add: ex_three_def ex_world_def ex_stop_def)
    have x: "xy (ex_stop 11 0 (Some 0)) = 11" "south_offset ex_three 11 = 1"
      "GetRoadStopType ex_three 11 = ROADSTOP_BUS"
      by code_simp+
    have ac: "0 < (1::nat)" "(10::TileIndex) = 11 - of_nat 1 * 1" by simp_all
    have run: "list_all (IsDriveThroughRoadStopContinuation ex_three 11) (tiles_from 10 1 (1 + 1 + 1))"
      "\<not> IsDriveThroughRoadStopContinuation ex_three 11 (10 - 1)"
      "\<not> IsDriveThroughRoadStopContinuation ex_three 11 (11 + of_nat (Suc 1) * 1)"
      by code_simp+
    have stops: "stops_at ex_three ROADSTOP_BUS (tiles_from 10 1 (1 + 1 + 1)) ([0] @ 1 # [2])"
      "length [0::nat] = 1"
      by code_simp+
    have plat: "list_all (\<lambda>i. platform_of ex_three i = Some 0) ([0] @ 1 # [2])"
      "plat_get ex_three 0 = Some \<lparr>plat_length = 48, occupied_east = 8, occupied_west = 8\<rparr>"
      by code_simp+
    have base: "road_stop ex_three (hd [0]) = Some (ex_stop 10 0x40 (Some 0))"
      "HasBit (status (ex_stop 10 0x40 (Some 0))) RSSFB_BASE_ENTRY"
      by (simp_all add: ex_three_def ex_world_def ex_stop_def HasBit_def RSSFB_BASE_ENTRY_def)
    have reb: "Rebuild_offset ex_three 10 = 1" "Rebuild_offset ex_three (11 + 1) = 1"
      by code_simp+
    have dirs: "directions_ok ex_three (tiles_from 10 1 1) (Rebuild_dir_east ex_three 10)"
      "directions_ok ex_three (tiles_from (11 + 1) 1 1) (Rebuild_dir_east ex_three (11 + 1))"
      by code_simp+
    from ClearDriveThrough_postcondition[OF ths]
    have "xy (ex_stop 11 0 (Some 0)) = 11 \<and> south_offset ex_three 11 = 1 \<and>
           GetRoadStopType ex_three 11 = ROADSTOP_BUS \<and>
           0 < (1::nat) \<and> 0 < (1::nat) \<and> (10::TileIndex) = 11 - of_nat 1 * 1 \<and>
           list_all (IsDriveThroughRoadStopContinuation ex_three 11) (tiles_from 10 1 (1 + 1 + 1)) \<and>
           \<not> IsDriveThroughRoadStopContinuation ex_three 11 (10 - 1) \<and>
           \<not> IsDriveThroughRoadStopContinuation ex_three 11 (11 + of_nat (Suc 1) * 1) \<and>
           stops_at ex_three ROADSTOP_BUS (tiles_from 10 1 (1 + 1 + 1)) ([0] @ 1 # [2]) \<and> length [0::nat] = 1 \<and>
           list_all (\<lambda>i. platform_of ex_three i = Some 0) ([0] @ 1 # [2]) \<and>
           plat_get ex_three 0 = Some \<lparr>plat_length = 48, occupied_east = 8, occupied_west = 8\<rparr> \<and>
           road_stop ex_three (hd [0]) = Some (ex_stop 10 0x40 (Some 0)) \<and>
           HasBit (status (ex_stop 10 0x40 (Some 0))) RSSFB_BASE_ENTRY \<and>
           Rebuild_offset ex_three 10 = 1 \<and> Rebuild_offset ex_three (11 + 1) = 1 \<and>
           directions_ok ex_three (tiles_from 10 1 1) (Rebuild_dir_east ex_three 10) \<and>
           directions_ok ex_three (tiles_from (11 + 1) 1 1) (Rebuild_dir_east ex_three (11 + 1)) \<longrightarrow>
           (\<exists>w' r. ClearDriveThrough 1 ex_three = Some (Inr w') \<and> road_stop w' 1 = Some r \<and>
              \<not> HasBit (status r) RSSFB_BASE_ENTRY \<and> platform r = None)"
      by blast
    then show ?thesis
      using x ac run stops plat base reb dirs by blast
  qed
  have n1: "road_stop ex_two 1 = Some (ex_stop 11 0 (Some 0))"
    and n0: "road_stop ex_two 0 = Some (ex_stop 10 0x40 (Some 0))"
    by (simp_all add: ex_two_def ex_world_def)
  have p: "platform (ex_stop 11 0 (Some 0)) \<noteq> None" "platform (ex_stop 10 0x40 (Some 0)) \<noteq> None"
    by (simp_all add: ex_stop_def)
  have a: "neighbour ex_two (xy (ex_stop 11 0 (Some 0))) (GetRoadStopType ex_two (xy (ex_stop 11 0 (Some 0))))
        (xy (ex_stop 11 0 (Some 0)) - south_offset ex_two (xy (ex_stop 11 0 (Some 0)))) = Inr (Some 0)"
    by code_simp
  have b: "neighbour ex_two (xy (ex_stop 11 0 (Some 0))) (GetRoadStopType ex_two (xy (ex_stop 11 0 (Some 0))))
        (xy (ex_stop 11 0 (Some 0)) + south_offset ex_two (xy (ex_stop 11 0 (Some 0)))) = Inr None"
    by code_simp
  have c: "neighbour ex_two (xy (ex_stop 10 0x40 (Some 0))) (GetRoadStopType ex_two (xy (ex_stop 10 0x40 (Some 0))))
        (xy (ex_stop 10 0x40 (Some 0)) - south_offset ex_two (xy (ex_stop 10 0x40 (Some 0)))) = Inr None"
    by code_simp
  have d: "neighbour ex_two (xy (ex_stop 10 0x40 (Some 0))) (GetRoadStopType ex_two (xy (ex_stop 10 0x40 (Some 0))))
        (xy (ex_stop 10 0x40 (Some 0)) + south_offset ex_two (xy (ex_stop 10 0x40 (Some 0)))) = Inr (Some 1)"
    by code_simp
  have e: "platform_of ex_two 0 = Some 0" "platform (ex_stop 11 0 (Some 0)) = Some 0"
    "plat_get ex_two 0 = Some \<lparr>plat_length = 32, occupied_east = 8, occupied_west = 0\<rparr>"
    by (simp_all add: platform_of_def plat_get_def ex_two_def ex_world_def ex_stop_def)
  have north: "\<exists>w' r. ClearDriveThrough 1 ex_two = Some (Inr w') \<and> road_stop w' 1 = Some r \<and>
      \<not> HasBit (status r) RSSFB_BASE_ENTRY \<and> platform r = None"
    using ClearDriveThrough_postcondition[OF n1 p(1)] a b e by blast
  have south: "\<exists>w' r. ClearDriveThrough 0 ex_two = Some (Inr w') \<and> road_stop w' 0 = Some r \<and>
      \<not> HasBit (status r) RSSFB_BASE_ENTRY \<and> platform r = None"
    using ClearDriveThrough_postcondition[OF n0 p(2)] c d n1 e by blast
  have s0: "road_stop ex_single 0 = Some (ex_stop 10 0x40 (Some 0))"
    by (simp add: ex_single_def ex_world_def)
  have f: "neighbour ex_single (xy (ex_stop 10 0x40 (Some 0))) (GetRoadStopType ex_single (xy (ex_stop 10 0x40 (Some 0))))
        (xy (ex_stop 10 0x40 (Some 0)) - south_offset ex_single (xy (ex_stop 10 0x40 (Some 0)))) = Inr None"
    by code_simp
  have g: "neighbour ex_single (xy (ex_stop 10 0x40 (Some 0))) (GetRoadStopType ex_single (xy (ex_stop 10 0x40 (Some 0))))
        (xy (ex_stop 10 0x40 (Some 0)) + south_offset ex_single (xy (ex_stop 10 0x40 (Some 0)))) = Inr None"
    by code_simp
  have h: "platform (ex_stop 10 0x40 (Some 0)) = Some 0"
    "plat_get ex_single 0 = Some \<lparr>plat_length = 16, occupied_east = 8, occupied_west = 0\<rparr>"
    by (simp_all add: plat_get_def ex_single_def ex_world_def ex_stop_def)
  have neither: "\<exists>w' r. ClearDriveThrough 0 ex_single = Some (Inr w') \<and> road_stop w' 0 = Some r \<and>
      \<not> HasBit (status r) RSSFB_BASE_ENTRY \<and> platform r = None"
    using ClearDriveThrough_postcondition[OF s0 p(2)] f g h by blast
  show ?thesis
    using both north south neither by blast
qed

subsection \<open>CheckIntegrity changes nothing\<close>

text \<open>
  C9: for every road stop, a call of \<^verbatim>\<open>CheckIntegrity\<close> that passes leaves the whole
  state as it was: every road stop's status bits and platform pointer and every platform's
  length and occupancies (the recomputation goes into a temporary platform only).
\<close>

theorem CheckIntegrity_unchanged:
  "CheckIntegrity this w = Some (Inr w') \<Longrightarrow> w' = w"
  by (auto simp: CheckIntegrity_def bindR_eq_ok split: option.splits if_splits)

theorem CheckIntegrity_unchanged_witness:
  "\<exists>w'. CheckIntegrity 0 ex_three = Some (Inr w') \<and> w' = ex_three"
proof -
  have "map_option (map_sum id platforms) (CheckIntegrity 0 ex_three) =
      Some (Inr [Some \<lparr>plat_length = 48, occupied_east = 8, occupied_west = 8\<rparr>])"
    by code_simp
  then obtain w' where 1: "CheckIntegrity 0 ex_three = Some (Inr w')"
    by (cases "CheckIntegrity 0 ex_three") (auto simp: map_sum_def split: sum.splits)
  show ?thesis
    using CheckIntegrity_unchanged[OF 1] 1 by simp
qed

subsection \<open>The destructor\<close>

text \<open>
  C10: the destructor of a road stop that points to a live platform deletes that platform
  if and only if the stop's base bit (\<open>RSSFB_BASE_ENTRY\<close>) is set; destroying a stop that
  is not the base leaves the platform allocated and the whole state untouched. No other
  platform and no road stop is touched in either case.
\<close>

theorem destructor_deletes_iff_base:
  assumes "road_stop w this = Some rs" and "platform rs = Some p" and "plat_get w p = Some pl"
  shows "\<exists>w'. RoadStop_destructor this w = Inr w' \<and>
           (plat_get w' p = None \<longleftrightarrow> HasBit (status rs) RSSFB_BASE_ENTRY) \<and>
           (\<not> HasBit (status rs) RSSFB_BASE_ENTRY \<longrightarrow> w' = w) \<and>
           (\<forall>q. q \<noteq> p \<longrightarrow> plat_get w' q = plat_get w q) \<and>
           road_stop w' = road_stop w"
  using assms
  by (auto simp: RoadStop_destructor_def plat_delete_def plat_get_def split: if_splits)

theorem destructor_deletes_iff_base_witness:
  "(\<exists>w'. RoadStop_destructor 0 ex_two = Inr w' \<and> plat_get w' 0 = None) \<and>
   (\<exists>w'. RoadStop_destructor 1 ex_two = Inr w' \<and> w' = ex_two \<and>
      plat_get w' 0 = Some \<lparr>plat_length = 32, occupied_east = 8, occupied_west = 0\<rparr>)"
proof -
  have n0: "road_stop ex_two 0 = Some (ex_stop 10 0x40 (Some 0))"
    and n1: "road_stop ex_two 1 = Some (ex_stop 11 0 (Some 0))"
    by (simp_all add: ex_two_def ex_world_def)
  have p: "platform (ex_stop 10 0x40 (Some 0)) = Some 0" "platform (ex_stop 11 0 (Some 0)) = Some 0"
    by (simp_all add: ex_stop_def)
  have g: "plat_get ex_two 0 = Some \<lparr>plat_length = 32, occupied_east = 8, occupied_west = 0\<rparr>"
    by (simp add: plat_get_def ex_two_def ex_world_def)
  have b: "HasBit (status (ex_stop 10 0x40 (Some 0))) RSSFB_BASE_ENTRY"
    "\<not> HasBit (status (ex_stop 11 0 (Some 0))) RSSFB_BASE_ENTRY"
    by (simp_all add: ex_stop_def HasBit_def RSSFB_BASE_ENTRY_def)
  show ?thesis
    using destructor_deletes_iff_base[OF n0 p(1) g] destructor_deletes_iff_base[OF n1 p(2) g] b g
    by auto
qed

subsection \<open>What an operation leaves alone\<close>


lemma frame_offs:
  assumes "frame w w' x M P" and "GetRoadStopAxis w' a = GetRoadStopAxis w c"
  shows "south_offset w' a = south_offset w c"
  using assms by (simp add: frame_def south_offset_def TileOffsByDiagDir_def)





subsection \<open>Stretches of tiles\<close>







subsection \<open>Establishing the invariant\<close>












subsection \<open>ClearDriveThrough keeps the invariant\<close>













lemma in_set_takeE:
  assumes "j \<in> set (take a xs)"
  obtains m where "m < a" and "m < length xs" and "xs ! m = j"
proof -
  from assms obtain i where i: "i < length (take a xs)" "take a xs ! i = j"
    unfolding in_set_conv_nth by blast
  then have "i < a" "i < length xs" "xs ! i = j" by simp_all
  then show thesis by (rule that)
qed





subsection \<open>MakeDriveThrough keeps the invariant\<close>


lemma build_tile_fields [simp]:
  "road_stop (build_tile x td w) = road_stop w"
  "platforms (build_tile x td w) = platforms w"
  "tiles (build_tile x td w) x = td"
  by (simp_all add: build_tile_def)

lemma build_tile_stops [simp]:
  "platform_of (build_tile x td w) = platform_of w"
  "plat_get (build_tile x td w) = plat_get w"
  "has_base (build_tile x td w) = has_base w"
  by (simp_all add: platform_of_def plat_get_def has_base_def fun_eq_iff)

lemma frame_trans:
  assumes "frame w v x M P" and "frame v w' x M' P'"
  shows "frame w w' x (M \<union> M') (P \<union> P')"
  using assms unfolding frame_def by auto







lemma seg_empty [simp]: "seg w b off 0 rst k [] p"
  by (simp add: seg_def)




















subsection \<open>Sequences of operations keep the invariant\<close>







subsection \<open>The invariant of the runs\<close>



end
